theory Spec2Isabelle
  imports Complex_Main
begin

section \<open>The log sink (logging.h, class LogStream)\<close>

text \<open>
  A \<open>std::ostream\<close> is a buffer in front of a device, together with the state that
  decides what an insertion does:
  \<^item> \<open>os_good\<close>: \<open>good()\<close>, that is, no error bit is set. Every output function first
    builds a sentry, which fails on a stream that is not good; the function then writes
    nothing and the stream stays in error.
  \<^item> \<open>os_accepts\<close>: the stream buffer takes the characters offered to it and syncs without
    error. When it does not (a file that is not open, a full device), the output
    function sets an error bit instead of writing. A buffer that takes part of the
    characters is not modelled.
  \<^item> \<open>os_width\<close>, \<open>os_fill\<close>, \<open>os_left\<close>: \<open>width()\<close>, \<open>fill()\<close> and whether the adjustment is
    \<open>left\<close>. The formatted insertion of a string shorter than the width pads it with the
    fill character, after the string when the adjustment is left and before it otherwise,
    and resets the width to zero.
  What a reader of the stream sees in the end is the device followed by the buffer.
  The exception mask of the stream is empty, as it is by default, so an error sets a bit
  and throws nothing. The flush of a tied stream by the sentry moves that stream's
  buffer to its device and is left out.
\<close>

record ostream =
  buffer :: string
  device :: string
  os_good :: bool
  os_accepts :: bool
  os_width :: nat
  os_fill :: char
  os_left :: bool




text \<open>\<open>os.flush()\<close>: syncs the buffer of a good stream.\<close>

definition ostream_flush :: "ostream \<Rightarrow> ostream" where
  "ostream_flush os =
     (if \<not> os_good os then os
      else if \<not> os_accepts os then os\<lparr>os_good := False\<rparr>
      else os\<lparr>buffer := [], device := device os @ buffer os\<rparr>)"


definition contents :: "ostream \<Rightarrow> string" where
  "contents os = device os @ buffer os"

text \<open>
  \<open>LogStream\<close> holds a mutex and a pointer \<open>out_\<close> to a stream that lives outside the
  object. The streams are kept in an explicit store indexed by address, so that the old
  and the new target of \<open>set_stream\<close> can be told apart. \<open>mutex_\<close> is \<open>True\<close> while some
  caller holds the mutex.
\<close>

type_synonym addr = nat

record LogStream =
  mutex :: bool
  out :: addr
  streams :: "addr \<Rightarrow> ostream"








section \<open>The updater (updater.cc)\<close>

subsection \<open>Data\<close>

text \<open>
  \<open>period_\<close> is a \<open>time::seconds\<close>. Its declaration (time.h) is not among the sources;
  the constructor initialises it from the \<open>double\<close> \<open>period_s\<close>, so it is taken to be a
  \<open>std::chrono::duration\<close> of seconds with a \<open>double\<close> count. The model keeps the value
  of the count, a real number. A reading of \<open>std::chrono::high_resolution_clock\<close> is,
  with the GNU library, a 64-bit count of nanoseconds since the epoch of the clock; the
  model keeps the count, an integer. Where the source mixes the two (\<open>start + period_\<close>,
  \<open>now < wakeup\<close>), the rules of \<open>std::chrono\<close> convert both operands to nanoseconds
  held in a \<open>double\<close>, and the arithmetic is that of \<open>double\<close>, modelled next.
\<close>

subsection \<open>Arithmetic of double\<close>

text \<open>
  A \<open>double\<close> has 53 significant bits; every conversion and every operation returns the
  representable number nearest to the exact result, the one with the even last bit when
  two are equally near. \<open>round_even\<close> rounds to an integer in this way. \<open>ulp_exp x\<close> is
  the exponent of the last bit of the doubles around \<open>x\<close>; it does not go below that of
  the subnormal numbers. \<open>to_double x\<close> is the double nearest to \<open>x\<close>. The largest
  exponent of a double is not modelled: where the source would reach an infinity, the
  model goes on with the finite number; a NaN or an infinity as the period is outside
  the type of \<open>period_\<close> in the model.
\<close>

definition round_even :: "real \<Rightarrow> int" where
  "round_even y =
     (let f = \<lfloor>y\<rfloor>; r = y - of_int f
      in if r < 1 / 2 then f else if 1 / 2 < r then f + 1 else if even f then f else f + 1)"

definition ulp_exp :: "real \<Rightarrow> int" where
  "ulp_exp x = max (\<lfloor>log 2 \<bar>x\<bar>\<rfloor> - 52) (- 1074)"

definition to_double :: "real \<Rightarrow> real" where
  "to_double x =
     (if x = 0 then 0
      else of_int (round_even (x / 2 powr of_int (ulp_exp x))) * 2 powr of_int (ulp_exp x))"

text \<open>
  \<open>start + period_\<close>, with \<open>start\<close> a reading of the clock: both operands are converted
  to nanoseconds in \<open>double\<close> (the count by a cast, the period by a multiplication with
  \<open>1e9\<close>) and added.
\<close>

definition plus_period :: "int \<Rightarrow> real \<Rightarrow> real" where
  "plus_period start p = to_double (to_double (of_int start) + to_double (p * 1000000000))"

text \<open>\<open>now < wakeup\<close>, with \<open>now\<close> a reading of the clock and \<open>wakeup\<close> as computed above.\<close>

definition before :: "int \<Rightarrow> real \<Rightarrow> bool" where
  "before now wakeup = (to_double (of_int now) < wakeup)"

text \<open>
  \<open>duration_cast<time::seconds>(now - start).count()\<close>: the count of nanoseconds is cast
  to \<open>double\<close> and divided by \<open>1e9\<close>.
\<close>

definition elapsed_seconds :: "int \<Rightarrow> int \<Rightarrow> real" where
  "elapsed_seconds now start = to_double (to_double (of_int (now - start)) / 1000000000)"

subsection \<open>The updater and its trace\<close>

datatype Severity = DEBUG | INFO | WARNING | ERROR

text \<open>
  A log statement \<open>LOG(INFO) << a << b << ...\<close> is recorded with its severity and the
  values streamed into it, in order: a piece of text, or a number of seconds.
\<close>

datatype piece = Text string | Secs real

text \<open>
  What the updater does to the outside world is recorded in a trace: log statements,
  calls of the query function (with the time of the call, in nanoseconds of the clock)
  and the two store callbacks.
  \<open>'r\<close> stands for \<open>ResourceMetadata\<close>.
\<close>

datatype 'r event =
    Log Severity "piece list"
  | QueryMetadata int
  | UpdateResource 'r
  | UpdateMetadata 'r

text \<open>The \<open>std::timed_mutex timer_\<close>: locked while the updater is active, unlocked to stop it.\<close>

datatype timed_mutex = Locked | Unlocked

text \<open>
  The worker thread runs \<open>PollForMetadata\<close>. It interacts with the rest of the system at
  two places, and the model records where it stands:
  \<^item> \<open>AtQuery\<close>: at the top of the \<open>do\<close> loop, about to call \<open>query_metadata_()\<close>;
  \<^item> \<open>AtWait start wakeup\<close>: at the condition of the inner \<open>while\<close>, with \<open>done = true\<close>,
    about to call \<open>timer_.try_lock_until(wakeup)\<close>;
  \<^item> \<open>Finished\<close>: \<open>PollForMetadata\<close> has returned.
  \<open>reporter_thread_\<close> is \<open>None\<close> when the \<open>std::thread\<close> is not joinable.
\<close>

datatype worker = AtQuery | AtWait int real | Finished

datatype ConfigurationValidationError = ConfigurationValidationError string

record 'r updater =
  VerboseLogging :: bool
  name :: string
  period :: real
  timer :: timed_mutex
  reporter_thread :: "worker option"
  trace :: "'r event list"

definition emit :: "'r event \<Rightarrow> 'r updater \<Rightarrow> 'r updater" where
  "emit e u = u\<lparr>trace := trace u @ [e]\<rparr>"

text \<open>\<open>if (config().VerboseLogging()) { LOG(INFO) << ...; }\<close>\<close>

definition verbose_log :: "piece list \<Rightarrow> 'r updater \<Rightarrow> 'r updater" where
  "verbose_log ps u = (if VerboseLogging u then emit (Log INFO ps) u else u)"

text \<open>
  The constructor of \<open>PollingMetadataUpdater\<close>: \<open>period_(period_s)\<close>, \<open>timer_()\<close> and
  \<open>reporter_thread_()\<close> default-constructed, that is, unlocked and not joinable.
\<close>

definition PollingMetadataUpdater :: "bool \<Rightarrow> string \<Rightarrow> real \<Rightarrow> 'r updater" where
  "PollingMetadataUpdater verbose nm period_s =
     \<lparr>VerboseLogging = verbose, name = nm, period = period_s,
      timer = Unlocked, reporter_thread = None, trace = []\<rparr>"


subsection \<open>MetadataUpdater: the lifecycle over the virtual hooks\<close>

text \<open>
  The virtual functions a concrete updater supplies. The two validation functions and
  \<open>ShouldStartUpdater\<close> are \<open>const\<close>: they read the updater and either throw or return.
\<close>

record 'r hooks =
  hook_ValidateStaticConfiguration :: "'r updater \<Rightarrow> ConfigurationValidationError option"
  hook_ShouldStartUpdater :: "'r updater \<Rightarrow> bool"
  hook_ValidateDynamicConfiguration :: "'r updater \<Rightarrow> ConfigurationValidationError option"
  hook_StartUpdater :: "'r updater \<Rightarrow> 'r updater"
  hook_NotifyStopUpdater :: "'r updater \<Rightarrow> 'r updater"

text \<open>\<open>MetadataUpdater::Start\<close>. \<open>Inl e\<close>: the exception \<open>e\<close> leaves \<open>Start\<close>.\<close>

definition Start :: "'r hooks \<Rightarrow> 'r updater \<Rightarrow> ConfigurationValidationError + 'r updater" where
  "Start h u =
     (case hook_ValidateStaticConfiguration h u of
        Some e \<Rightarrow> Inl e
      | None \<Rightarrow>
          if hook_ShouldStartUpdater h u then
            (case hook_ValidateDynamicConfiguration h u of
               Some e \<Rightarrow> Inl e
             | None \<Rightarrow> Inr (hook_StartUpdater h u))
          else Inr (emit (Log INFO [Text ''Not starting '', Text (name u)]) u))"

text \<open>\<open>MetadataUpdater::NotifyStop\<close>\<close>

definition NotifyStop :: "'r hooks \<Rightarrow> 'r updater \<Rightarrow> 'r updater" where
  "NotifyStop h u = hook_NotifyStopUpdater h u"


subsection \<open>PollingMetadataUpdater: the hooks\<close>

text \<open>
  Modelled from the spec: \<open>format::Substitute\<close> (format.h is not among the sources).
  The spec describes it as template substitution with the actual value substituted; the
  call in \<open>ValidateStaticConfiguration\<close> writes the placeholder as \<open>{{period}}\<close>. The
  scan copies the template and replaces each \<open>{{key}}\<close> by the value given for \<open>key\<close>;
  the inserted value is not scanned again. The spec does not say what happens to a key
  without a value or to a placeholder that is not closed; the scan drops the first and
  copies the second, and the template of \<open>ValidateStaticConfiguration\<close> has neither.
\<close>

fun Substitute_scan :: "(string \<times> string) list \<Rightarrow> string option \<Rightarrow> string \<Rightarrow> string" where
  "Substitute_scan ps None (c1 # c2 # cs) =
     (if c1 = CHR ''{'' \<and> c2 = CHR ''{'' then Substitute_scan ps (Some []) cs
      else c1 # Substitute_scan ps None (c2 # cs))"
| "Substitute_scan ps None cs = cs"
| "Substitute_scan ps (Some key) (c1 # c2 # cs) =
     (if c1 = CHR ''}'' \<and> c2 = CHR ''}''
      then (case map_of ps key of Some v \<Rightarrow> v | None \<Rightarrow> []) @ Substitute_scan ps None cs
      else Substitute_scan ps (Some (key @ [c1])) (c2 # cs))"
| "Substitute_scan ps (Some key) cs = ''{{'' @ key @ cs"

definition Substitute :: "string \<Rightarrow> (string \<times> string) list \<Rightarrow> string" where
  "Substitute format params = Substitute_scan params None format"

text \<open>
  \<open>PollingMetadataUpdater::ValidateStaticConfiguration\<close>. \<open>str\<close> is \<open>format::str\<close>, which
  renders the \<open>double\<close> \<open>period_.count()\<close>; format.h is not among the sources, so the
  rendering is a parameter.
\<close>

definition ValidateStaticConfiguration ::
  "(real \<Rightarrow> string) \<Rightarrow> 'r updater \<Rightarrow> ConfigurationValidationError option" where
  "ValidateStaticConfiguration str u =
     (if period u < 0 then
        Some (ConfigurationValidationError
               (Substitute ''Polling period {{period}}s cannot be negative''
                           [(''period'', str (period u))]))
      else None)"

definition ShouldStartUpdater :: "'r updater \<Rightarrow> bool" where
  "ShouldStartUpdater u = (period u > 0)"

text \<open>
  \<open>StartUpdater\<close>: \<open>timer_.lock()\<close>, the verbose log statement, and the worker thread
  created at the entry of \<open>PollForMetadata\<close>. \<open>Start\<close> is called once on an instance, so
  \<open>lock()\<close> finds the mutex of the constructor free.
\<close>

definition StartUpdater :: "'r updater \<Rightarrow> 'r updater" where
  "StartUpdater u =
     (let u1 = u\<lparr>timer := Locked\<rparr>;
          u2 = verbose_log [Text ''Locked timer for '', Text (name u1)] u1
      in u2\<lparr>reporter_thread := Some AtQuery\<rparr>)"

text \<open>\<open>NotifyStopUpdater\<close>: \<open>timer_.unlock()\<close> and the verbose log statement.\<close>

definition NotifyStopUpdater :: "'r updater \<Rightarrow> 'r updater" where
  "NotifyStopUpdater u =
     (let u1 = u\<lparr>timer := Unlocked\<rparr>
      in verbose_log [Text ''Unlocked timer for '', Text (name u1)] u1)"

text \<open>
  The table of \<open>PollingMetadataUpdater\<close>. \<open>ValidateDynamicConfiguration\<close> is not overridden
  in updater.cc and its declaration (updater.h) is not among the sources, so it is a
  parameter \<open>dyn\<close>.
\<close>

definition Polling ::
  "(real \<Rightarrow> string) \<Rightarrow> ('r updater \<Rightarrow> ConfigurationValidationError option) \<Rightarrow> 'r hooks" where
  "Polling str dyn =
     \<lparr>hook_ValidateStaticConfiguration = ValidateStaticConfiguration str,
      hook_ShouldStartUpdater = ShouldStartUpdater,
      hook_ValidateDynamicConfiguration = dyn,
      hook_StartUpdater = StartUpdater,
      hook_NotifyStopUpdater = NotifyStopUpdater\<rparr>"


subsection \<open>PollingMetadataUpdater: the worker\<close>

text \<open>
  Modelled from the spec: \<open>UpdateResourceCallback\<close> and \<open>UpdateMetadataCallback\<close> are
  declared in updater.h, which is not among the sources; the spec has them invoke the
  store's resource-update and metadata-update entry points with the item.
\<close>

definition UpdateResourceCallback :: "'r \<Rightarrow> 'r updater \<Rightarrow> 'r updater" where
  "UpdateResourceCallback result u = emit (UpdateResource result) u"

definition UpdateMetadataCallback :: "'r \<Rightarrow> 'r updater \<Rightarrow> 'r updater" where
  "UpdateMetadataCallback result u = emit (UpdateMetadata result) u"

text \<open>
  Lines 95 to 106, from \<open>AtQuery\<close> to \<open>AtWait\<close>: \<open>query_metadata_()\<close> is called at time
  \<open>t\<close> and returns \<open>result_vector\<close>; the \<open>for\<close> loop passes each item to the two callbacks;
  the clock then reads \<open>now\<close>, which becomes \<open>start\<close>, \<open>wakeup\<close> is \<open>start + period_\<close> and
  \<open>done\<close> is \<open>true\<close>.
\<close>

definition poll_round :: "int \<Rightarrow> 'r list \<Rightarrow> int \<Rightarrow> 'r updater \<Rightarrow> 'r updater" where
  "poll_round t result_vector now u =
     (let u1 = emit (QueryMetadata t) u;
          u2 = foldl (\<lambda>v result. UpdateMetadataCallback result (UpdateResourceCallback result v))
                     u1 result_vector;
          u3 = verbose_log [Text ''Trying to unlock the timer for '', Text (name u2)] u2;
          start = now;
          wakeup = plus_period start (period u3)
      in u3\<lparr>reporter_thread := Some (AtWait start wakeup)\<rparr>)"

text \<open>
  Lines 107 to 125, from \<open>AtWait start wakeup\<close>: one evaluation of
  \<open>done && !timer_.try_lock_until(wakeup)\<close> with \<open>done = true\<close>, and what follows it.
  \<open>try_lock_until\<close> takes the mutex when it is free and returns \<open>true\<close>: the inner loop
  ends with \<open>done\<close> still \<open>true\<close>, the outer loop ends too, and \<open>PollForMetadata\<close> returns
  after its last log statement. Otherwise it returns \<open>false\<close> and the clock reads \<open>now\<close>:
  when \<open>now < wakeup\<close> the body executes \<open>continue\<close> and the same call is made again;
  otherwise the body logs, sets \<open>done = false\<close>, which ends the inner loop without
  another call, and the outer loop starts over (the values stored in \<open>start\<close> and \<open>wakeup\<close>
  at lines 118 and 119 are overwritten at lines 104 and 105 before they are read).
\<close>

definition wait_attempt :: "int \<Rightarrow> int \<Rightarrow> real \<Rightarrow> 'r updater \<Rightarrow> 'r updater" where
  "wait_attempt now start wakeup u =
     (if timer u = Unlocked then
        (let u1 = u\<lparr>timer := Locked\<rparr>;
             u2 = verbose_log [Text ''Timer unlocked (stop polling) for '', Text (name u1)] u1
         in u2\<lparr>reporter_thread := Some Finished\<rparr>)
      else if before now wakeup then u
      else
        (let u1 = verbose_log [Text '' Timer unlock timed out after '',
                               Secs (elapsed_seconds now start),
                               Text ''s (good) for '', Text (name u)] u
         in u1\<lparr>reporter_thread := Some AtQuery\<rparr>))"

text \<open>
  The destructor: \<open>if (reporter_thread_.joinable()) reporter_thread_.join();\<close>.
  \<open>join()\<close> returns once \<open>PollForMetadata\<close> has returned; \<open>None\<close> says that the destructor
  has not returned in this state.
\<close>

definition destructor :: "'r updater \<Rightarrow> 'r updater option" where
  "destructor u =
     (case reporter_thread u of
        None \<Rightarrow> Some u
      | Some Finished \<Rightarrow> Some (u\<lparr>reporter_thread := None\<rparr>)
      | Some _ \<Rightarrow> None)"


subsection \<open>The two threads together\<close>

text \<open>
  The caller's thread and the worker act on the same updater. A run of the system is a
  list of actions in the order they take effect:
  \<^item> \<open>CallNotifyStop\<close>: the caller's thread executes \<open>NotifyStop()\<close>;
  \<open>MetadataUpdater::NotifyStop\<close> dispatches to \<open>NotifyStopUpdater\<close>;
  \<^item> \<open>QueryReturns t result_vector now\<close>: the worker, at \<open>AtQuery\<close>, calls the query
    function at time \<open>t\<close>, gets \<open>result_vector\<close> and reads the clock as \<open>now\<close> at line 104;
  \<^item> \<open>TryLockReturns now\<close>: the worker's call of \<open>try_lock_until\<close> returns; if it returns
    \<open>false\<close>, the clock reads \<open>now\<close> at line 108.
  An action of the worker that does not match the place where the worker stands, or that
  comes when no worker exists, changes nothing. Between two of its places the worker reads
  nothing that the caller's thread writes, so a \<open>NotifyStop\<close> during a round acts as one
  just before or just after it. The runs are those in which the query function and the
  store callbacks return: \<open>PollForMetadata\<close> catches nothing, so an exception of theirs
  leaves the thread function and ends the process.
\<close>

datatype 'r action =
    CallNotifyStop
  | QueryReturns int "'r list" int
  | TryLockReturns int

fun step :: "'r action \<Rightarrow> 'r updater \<Rightarrow> 'r updater" where
  "step CallNotifyStop u = NotifyStopUpdater u"
| "step (QueryReturns t result_vector now) u =
     (case reporter_thread u of
        Some AtQuery \<Rightarrow> poll_round t result_vector now u
      | _ \<Rightarrow> u)"
| "step (TryLockReturns now) u =
     (case reporter_thread u of
        Some (AtWait start wakeup) \<Rightarrow> wait_attempt now start wakeup u
      | _ \<Rightarrow> u)"

definition run :: "'r action list \<Rightarrow> 'r updater \<Rightarrow> 'r updater" where
  "run script u = foldl (\<lambda>v a. step a v) u script"

text \<open>The clock readings and call times of a run, in the order they occur.\<close>

fun stamps :: "'r action \<Rightarrow> int list" where
  "stamps CallNotifyStop = []"
| "stamps (QueryReturns t result_vector now) = [t, now]"
| "stamps (TryLockReturns now) = [now]"

definition chronological :: "'r action list \<Rightarrow> bool" where
  "chronological script = sorted (concat (map stamps script))"

text \<open>The times of a run are counts the clock can return: 64-bit, after its epoch.\<close>

definition clock_range :: "'r action list \<Rightarrow> bool" where
  "clock_range script = list_all (\<lambda>t. 0 \<le> t \<and> t < 2 ^ 63) (concat (map stamps script))"

text \<open>Projections of the trace.\<close>

fun query_times :: "'r event list \<Rightarrow> int list" where
  "query_times [] = []"
| "query_times (QueryMetadata t # es) = t # query_times es"
| "query_times (e # es) = query_times es"

fun is_Log :: "'r event \<Rightarrow> bool" where
  "is_Log (Log sev ps) = True"
| "is_Log e = False"

definition calls :: "'r event list \<Rightarrow> 'r event list" where
  "calls es = filter (\<lambda>e. \<not> is_Log e) es"

fun is_store :: "'r event \<Rightarrow> bool" where
  "is_store (UpdateResource x) = True"
| "is_store (UpdateMetadata x) = True"
| "is_store e = False"

definition store_calls :: "'r event list \<Rightarrow> 'r event list" where
  "store_calls es = filter is_store es"

text \<open>
  Successive times, in nanoseconds, are at least a period of \<open>p\<close> seconds apart: exactly,
  and up to the rounding of \<open>double\<close> (a fraction \<open>2^-52\<close> of the period, and 3072
  nanoseconds for three roundings of a 64-bit count).
\<close>

fun spaced_exactly :: "real \<Rightarrow> int list \<Rightarrow> bool" where
  "spaced_exactly p (t1 # t2 # ts) =
     (of_int t1 + p * 1000000000 \<le> of_int t2 \<and> spaced_exactly p (t2 # ts))"
| "spaced_exactly p ts = True"

definition gap :: "real \<Rightarrow> int \<Rightarrow> int \<Rightarrow> bool" where
  "gap p t1 t2 =
     ((1 - 1 / 2 ^ 52) * (p * 1000000000) - 3072 \<le> of_int t2 - of_int t1)"

fun spaced :: "real \<Rightarrow> int list \<Rightarrow> bool" where
  "spaced p (t1 # t2 # ts) = (gap p t1 t2 \<and> spaced p (t2 # ts))"
| "spaced p ts = True"

text \<open>What the store and the query function see of one poll round.\<close>

definition round_calls :: "int \<times> 'r list \<Rightarrow> 'r event list" where
  "round_calls r = QueryMetadata (fst r) # concat (map (\<lambda>x. [UpdateResource x, UpdateMetadata x]) (snd r))"

text \<open>
  The invariant behind the spacing of the query calls, for a run whose coming clock
  readings are all at least \<open>lo\<close>: the query calls so far are spaced by the period, none
  is later than \<open>lo\<close>; a worker at \<open>AtQuery\<close> stands one period after the last call; a
  worker at \<open>AtWait start wakeup\<close> waits for \<open>start + period_\<close>, and \<open>start\<close> is a count of
  the clock read after the last call.
\<close>

definition wait_inv :: "int \<Rightarrow> 'r updater \<Rightarrow> bool" where
  "wait_inv lo u =
     (spaced (period u) (query_times (trace u)) \<and>
      (query_times (trace u) \<noteq> [] \<longrightarrow> last (query_times (trace u)) \<le> lo) \<and>
      (case reporter_thread u of
         Some AtQuery \<Rightarrow>
           query_times (trace u) \<noteq> [] \<longrightarrow> gap (period u) (last (query_times (trace u))) lo
       | Some (AtWait start wakeup) \<Rightarrow>
           wakeup = plus_period start (period u) \<and> 0 \<le> start \<and> start \<le> lo \<and>
           (query_times (trace u) \<noteq> [] \<longrightarrow> last (query_times (trace u)) \<le> start)
       | _ \<Rightarrow> True))"

section \<open>Properties\<close>

subsection \<open>Rounding to double\<close>

lemma round_even_error: "\<bar>of_int (round_even y) - y\<bar> \<le> 1 / 2"
  unfolding round_even_def Let_def by (auto; linarith)

lemma round_even_of_int [simp]: "round_even (of_int m) = m"
  by (simp add: round_even_def)

lemma ulp_exp_normal:
  assumes "1 / 2 \<le> \<bar>x\<bar>"
  shows "ulp_exp x = \<lfloor>log 2 \<bar>x\<bar>\<rfloor> - 52"
proof -
  have "(2::real) powr (- 1) \<le> \<bar>x\<bar>" using assms by (simp add: powr_minus)
  then have "- 1 \<le> log 2 \<bar>x\<bar>" using assms by (simp add: le_log_iff)
  then have "- 1 \<le> \<lfloor>log 2 \<bar>x\<bar>\<rfloor>" by (simp add: le_floor_iff)
  then show ?thesis by (simp add: ulp_exp_def)
qed

lemma ulp_exp_lower:
  assumes "1 / 2 \<le> \<bar>x\<bar>"
  shows "2 powr (of_int (ulp_exp x) + 52) \<le> \<bar>x\<bar>"
proof -
  have "of_int (ulp_exp x) + 52 = of_int \<lfloor>log 2 \<bar>x\<bar>\<rfloor>"
    using assms by (simp add: ulp_exp_normal)
  also have "\<dots> \<le> log 2 \<bar>x\<bar>" by simp
  finally have "2 powr (of_int (ulp_exp x) + 52) \<le> 2 powr log 2 \<bar>x\<bar>" by simp
  then show ?thesis using assms by simp
qed

lemma ulp_exp_unique:
  assumes "2 powr (of_int e + 52) \<le> \<bar>x\<bar>" and "\<bar>x\<bar> < 2 powr (of_int e + 53)" and "- 1074 \<le> e"
  shows "ulp_exp x = e"
proof -
  have pos: "0 < \<bar>x\<bar>" using assms(1) powr_gt_zero [of 2 "of_int e + 52"] by linarith
  have "of_int (e + 52) \<le> log 2 \<bar>x\<bar>"
    using assms(1) pos by (simp add: le_log_iff)
  moreover have "log 2 \<bar>x\<bar> < of_int (e + 52) + 1"
    using assms(2) pos by (simp add: log_less_iff add.commute)
  ultimately have "\<lfloor>log 2 \<bar>x\<bar>\<rfloor> = e + 52" by (rule floor_unique)
  then show ?thesis using assms(3) by (simp add: ulp_exp_def)
qed

lemma to_double_error:
  assumes "1 / 2 \<le> \<bar>x\<bar>"
  shows "\<bar>to_double x - x\<bar> \<le> \<bar>x\<bar> / 2 ^ 53"
proof -
  have x0: "x \<noteq> 0" using assms by auto
  define s :: real where "s = 2 powr of_int (ulp_exp x)"
  have s: "0 < s" by (simp add: s_def)
  define y where "y = x / s"
  have "to_double x - x = (of_int (round_even y) - y) * s"
    using x0 by (simp add: to_double_def s_def y_def algebra_simps)
  then have "\<bar>to_double x - x\<bar> = \<bar>of_int (round_even y) - y\<bar> * s"
    using s by (simp add: abs_mult)
  also have "\<dots> \<le> 1 / 2 * s"
    using round_even_error [of y] s by (intro mult_right_mono) auto
  finally have err: "\<bar>to_double x - x\<bar> \<le> s / 2" by simp
  have "s * 2 ^ 52 = 2 powr (of_int (ulp_exp x) + 52)"
    by (simp add: s_def powr_add)
  also have "\<dots> \<le> \<bar>x\<bar>" using assms by (rule ulp_exp_lower)
  finally have "s / 2 \<le> \<bar>x\<bar> / 2 ^ 53" by simp
  with err show ?thesis by linarith
qed

lemma to_double_zero [simp]: "to_double 0 = 0"
  by (simp add: to_double_def)

lemma to_double_bounds:
  assumes "x = 0 \<or> 1 / 2 \<le> x"
  shows "x - x / 9007199254740992 \<le> to_double x" and "to_double x \<le> x + x / 9007199254740992"
proof -
  have "\<bar>to_double x - x\<bar> \<le> x / 9007199254740992"
  proof (cases "x = 0")
    case True
    then show ?thesis by simp
  next
    case False
    then have "1 / 2 \<le> \<bar>x\<bar>" and "\<bar>x\<bar> = x" using assms by auto
    then show ?thesis using to_double_error [of x] by simp
  qed
  then show "x - x / 9007199254740992 \<le> to_double x" and "to_double x \<le> x + x / 9007199254740992"
    by linarith+
qed

lemma to_double_big:
  fixes k :: nat
  assumes "2 ^ (k + 52) \<le> \<bar>x\<bar>" and "\<bar>x\<bar> < 2 ^ (k + 53)"
  shows "to_double x = of_int (round_even (x / 2 ^ k)) * 2 ^ k"
proof -
  have "ulp_exp x = int k"
    using assms by (intro ulp_exp_unique) (simp_all add: powr_add powr_realpow power_add)
  moreover have "x \<noteq> 0"
  proof
    assume "x = 0"
    with assms(1) zero_less_power [of "2::real" "k + 52"] show False by linarith
  qed
  ultimately show ?thesis by (simp add: to_double_def powr_realpow)
qed

lemma to_double_small:
  fixes k :: nat
  assumes "2 ^ 52 \<le> \<bar>x\<bar> * 2 ^ k" and "\<bar>x\<bar> * 2 ^ k < 2 ^ 53" and "k \<le> 1074"
  shows "to_double x = of_int (round_even (x * 2 ^ k)) / 2 ^ k"
proof -
  have p: "(2::real) powr (- real k) = 1 / 2 ^ k"
    by (simp add: powr_minus powr_realpow divide_inverse)
  have "ulp_exp x = - int k"
  proof (rule ulp_exp_unique)
    have "(2::real) powr (of_int (- int k) + 52) = 2 ^ 52 / 2 ^ k"
      by (simp add: powr_diff powr_realpow)
    also have "\<dots> \<le> \<bar>x\<bar>" using assms(1) by (simp add: field_simps)
    finally show "2 powr (of_int (- int k) + 52) \<le> \<bar>x\<bar>" .
    have "\<bar>x\<bar> < 2 ^ 53 / 2 ^ k" using assms(2) by (simp add: field_simps)
    also have "\<dots> = 2 powr (of_int (- int k) + 53)"
      by (simp add: powr_diff powr_realpow)
    finally show "\<bar>x\<bar> < 2 powr (of_int (- int k) + 53)" .
    show "- 1074 \<le> - int k" using assms(3) by simp
  qed
  moreover have "x \<noteq> 0" using assms(1) by auto
  ultimately show ?thesis by (simp add: to_double_def p)
qed

lemma to_double_int_exact:
  assumes "\<bar>n\<bar> < 2 ^ 53"
  shows "to_double (of_int n) = of_int n"
proof (cases "n = 0")
  case True
  then show ?thesis by simp
next
  case False
  define x :: real where "x = of_int n"
  have x0: "x \<noteq> 0" using False by (simp add: x_def)
  have x1: "1 / 2 \<le> \<bar>x\<bar>"
  proof -
    have "1 \<le> \<bar>n\<bar>" using False by simp
    then have "real_of_int 1 \<le> real_of_int \<bar>n\<bar>" by (simp only: of_int_le_iff)
    then show ?thesis by (simp add: x_def)
  qed
  have "\<bar>x\<bar> < 2 ^ 53"
  proof -
    have "real_of_int \<bar>n\<bar> < real_of_int (2 ^ 53)" using assms by (simp only: of_int_less_iff)
    then show ?thesis by (simp add: x_def)
  qed
  then have "log 2 \<bar>x\<bar> < 53"
    using x0 by (simp add: log_less_iff)
  then have "\<lfloor>log 2 \<bar>x\<bar>\<rfloor> < 53" by (simp add: floor_less_iff)
  then have "ulp_exp x \<le> 0" using x1 by (simp add: ulp_exp_normal)
  then obtain k :: nat where k: "ulp_exp x = - int k"
    by (metis nonpos_int_cases)
  have p: "(2::real) powr (- real k) = 1 / 2 ^ k"
    by (simp add: powr_minus powr_realpow divide_inverse)
  have "x / 2 powr of_int (ulp_exp x) = x * 2 ^ k"
    by (simp add: k p)
  also have "\<dots> = of_int (n * 2 ^ k)" by (simp add: x_def)
  finally have y: "x / 2 powr of_int (ulp_exp x) = of_int (n * 2 ^ k)" .
  have "to_double x = of_int (round_even (x / 2 powr of_int (ulp_exp x))) * 2 powr of_int (ulp_exp x)"
    using x0 by (simp add: to_double_def)
  also have "\<dots> = of_int (n * 2 ^ k) * 2 powr of_int (ulp_exp x)"
    by (simp only: y round_even_of_int)
  also have "\<dots> = of_int (n * 2 ^ k) * (1 / 2 ^ k)" by (simp add: k p)
  also have "\<dots> = x" by (simp add: x_def)
  finally show ?thesis by (simp add: x_def)
qed

lemma to_double_numeral_exact [simp]:
  "numeral k < (9007199254740992::int) \<Longrightarrow> to_double (numeral k) = numeral k"
  using to_double_int_exact [of "numeral k"] by simp

lemma to_double_one [simp]: "to_double 1 = 1"
  using to_double_int_exact [of 1] by simp

lemma to_double_of_int_bounds:
  assumes "0 \<le> n"
  shows "of_int n - of_int n / 9007199254740992 \<le> to_double (of_int n)"
    and "to_double (of_int n) \<le> of_int n + of_int n / 9007199254740992"
proof -
  have "real_of_int n = 0 \<or> 1 / 2 \<le> real_of_int n"
  proof (cases "n = 0")
    case True
    then show ?thesis by simp
  next
    case False
    then have "1 \<le> n" using assms by simp
    then have "real_of_int 1 \<le> real_of_int n" by (simp only: of_int_le_iff)
    then show ?thesis by simp
  qed
  then show "of_int n - of_int n / 9007199254740992 \<le> to_double (of_int n)"
    and "to_double (of_int n) \<le> of_int n + of_int n / 9007199254740992"
    by (rule to_double_bounds)+
qed

text \<open>The values behind the early tick.\<close>

lemma to_double_start: "to_double 1800000000000000100 = 1800000000000000000"
  using to_double_big [of 8 1800000000000000100] by (simp add: round_even_def)

lemma to_double_sum: "to_double 1800000000250000000 = 1800000000249999872"
  using to_double_big [of 8 1800000000250000000] by (simp add: round_even_def)

lemma to_double_now: "to_double 1800000000249999744 = 1800000000249999872"
  using to_double_big [of 8 1800000000249999744] by (simp add: round_even_def)

lemma plus_period_early: "plus_period 1800000000000000100 (1 / 4) = 1800000000249999872"
  by (simp add: plus_period_def to_double_start to_double_sum)

lemma tick_gap:
  assumes "0 \<le> s" and "s \<le> n" and "n < 2 ^ 63" and "\<not> before n (plus_period s p)"
  shows "gap p s n"
proof (cases "p * 1000000000 \<le> 3072")
  case True
  have "real_of_int s \<le> real_of_int n" using assms(2) by (simp only: of_int_le_iff)
  then show ?thesis using True by (simp add: gap_def)
next
  case False
  define q where "q = p * 1000000000"
  define a where "a = to_double (of_int s)"
  define P where "P = to_double q"
  define W where "W = to_double (a + P)"
  define fn where "fn = to_double (of_int n)"
  have q: "3072 < q" using False by (simp add: q_def)
  have sn: "real_of_int s \<le> real_of_int n" and s0: "0 \<le> real_of_int s"
    using assms(1,2) by simp_all
  have n63: "real_of_int n < 9223372036854775808"
  proof -
    have "real_of_int n < real_of_int (2 ^ 63)" using assms(3) by (simp only: of_int_less_iff)
    then show ?thesis by simp
  qed
  have a: "of_int s - of_int s / 9007199254740992 \<le> a"
    unfolding a_def using assms(1) by (rule to_double_of_int_bounds)
  have P: "q - q / 9007199254740992 \<le> P"
    unfolding P_def using q by (intro to_double_bounds) simp
  have "1 / 2 \<le> a + P" using a P q s0 by linarith
  then have W: "(a + P) - (a + P) / 9007199254740992 \<le> W"
    unfolding W_def by (intro to_double_bounds) simp
  have fn: "fn \<le> of_int n + of_int n / 9007199254740992"
    unfolding fn_def using assms(1,2) by (intro to_double_of_int_bounds) simp
  have "W \<le> fn"
    using assms(4) by (simp add: before_def plus_period_def W_def a_def P_def fn_def q_def)
  moreover have "a + P - (a / 9007199254740992 + P / 9007199254740992) \<le> W"
    using W by (simp add: add_divide_distrib)
  ultimately have "q - q / 4503599627370496 - 3072 \<le> of_int n - of_int s"
    using a P fn q sn s0 n63 by linarith
  then show ?thesis by (simp add: gap_def q_def algebra_simps)
qed

subsection \<open>Fields after each operation\<close>

lemma emit_fields [simp]:
  "trace (emit e u) = trace u @ [e]"
  "timer (emit e u) = timer u"
  "reporter_thread (emit e u) = reporter_thread u"
  "period (emit e u) = period u"
  "name (emit e u) = name u"
  "VerboseLogging (emit e u) = VerboseLogging u"
  by (simp_all add: emit_def)

lemma verbose_log_fields [simp]:
  "trace (verbose_log ps u) = trace u @ (if VerboseLogging u then [Log INFO ps] else [])"
  "timer (verbose_log ps u) = timer u"
  "reporter_thread (verbose_log ps u) = reporter_thread u"
  "period (verbose_log ps u) = period u"
  "name (verbose_log ps u) = name u"
  "VerboseLogging (verbose_log ps u) = VerboseLogging u"
  by (simp_all add: verbose_log_def)

lemma callbacks_fields [simp]:
  "trace (foldl (\<lambda>v result. UpdateMetadataCallback result (UpdateResourceCallback result v)) u xs)
     = trace u @ concat (map (\<lambda>x. [UpdateResource x, UpdateMetadata x]) xs)"
  "timer (foldl (\<lambda>v result. UpdateMetadataCallback result (UpdateResourceCallback result v)) u xs) = timer u"
  "reporter_thread (foldl (\<lambda>v result. UpdateMetadataCallback result (UpdateResourceCallback result v)) u xs)
     = reporter_thread u"
  "period (foldl (\<lambda>v result. UpdateMetadataCallback result (UpdateResourceCallback result v)) u xs) = period u"
  "name (foldl (\<lambda>v result. UpdateMetadataCallback result (UpdateResourceCallback result v)) u xs) = name u"
  "VerboseLogging (foldl (\<lambda>v result. UpdateMetadataCallback result (UpdateResourceCallback result v)) u xs)
     = VerboseLogging u"
  by (induction xs arbitrary: u; simp add: UpdateMetadataCallback_def UpdateResourceCallback_def)+

lemma poll_round_fields [simp]:
  "trace (poll_round t xs now u)
     = trace u @ QueryMetadata t # concat (map (\<lambda>x. [UpdateResource x, UpdateMetadata x]) xs)
         @ (if VerboseLogging u then [Log INFO [Text ''Trying to unlock the timer for '', Text (name u)]] else [])"
  "timer (poll_round t xs now u) = timer u"
  "reporter_thread (poll_round t xs now u) = Some (AtWait now (plus_period now (period u)))"
  "period (poll_round t xs now u) = period u"
  "name (poll_round t xs now u) = name u"
  "VerboseLogging (poll_round t xs now u) = VerboseLogging u"
  by (simp_all add: poll_round_def Let_def)


lemma wait_attempt_fields [simp]:
  "timer (wait_attempt now start wakeup u) = Locked"
  "reporter_thread (wait_attempt now start wakeup u)
     = (if timer u = Unlocked then Some Finished
        else if before now wakeup then reporter_thread u else Some AtQuery)"
  "period (wait_attempt now start wakeup u) = period u"
  "name (wait_attempt now start wakeup u) = name u"
  "VerboseLogging (wait_attempt now start wakeup u) = VerboseLogging u"
  by (cases "timer u"; simp add: wait_attempt_def Let_def)+

lemma wait_attempt_trace:
  "trace (wait_attempt now start wakeup u)
     = trace u @
        (if \<not> VerboseLogging u then []
         else if timer u = Unlocked then [Log INFO [Text ''Timer unlocked (stop polling) for '', Text (name u)]]
         else if before now wakeup then []
         else [Log INFO [Text '' Timer unlock timed out after '', Secs (elapsed_seconds now start),
                         Text ''s (good) for '', Text (name u)]])"
  by (simp add: wait_attempt_def Let_def)

lemma NotifyStopUpdater_fields [simp]:
  "trace (NotifyStopUpdater u)
     = trace u @ (if VerboseLogging u then [Log INFO [Text ''Unlocked timer for '', Text (name u)]] else [])"
  "timer (NotifyStopUpdater u) = Unlocked"
  "reporter_thread (NotifyStopUpdater u) = reporter_thread u"
  "period (NotifyStopUpdater u) = period u"
  "name (NotifyStopUpdater u) = name u"
  "VerboseLogging (NotifyStopUpdater u) = VerboseLogging u"
  by (simp_all add: NotifyStopUpdater_def Let_def)

lemma StartUpdater_fields [simp]:
  "trace (StartUpdater u)
     = trace u @ (if VerboseLogging u then [Log INFO [Text ''Locked timer for '', Text (name u)]] else [])"
  "timer (StartUpdater u) = Locked"
  "reporter_thread (StartUpdater u) = Some AtQuery"
  "period (StartUpdater u) = period u"
  "name (StartUpdater u) = name u"
  "VerboseLogging (StartUpdater u) = VerboseLogging u"
  by (simp_all add: StartUpdater_def Let_def)

lemma query_times_append [simp]: "query_times (es @ fs) = query_times es @ query_times fs"
  by (induction es rule: query_times.induct) simp_all

lemma query_times_callbacks [simp]:
  "query_times (concat (map (\<lambda>x. [UpdateResource x, UpdateMetadata x]) xs)) = []"
  by (induction xs) simp_all

lemma calls_append [simp]: "calls (es @ fs) = calls es @ calls fs"
  by (simp add: calls_def)

lemma calls_callbacks [simp]:
  "calls (concat (map (\<lambda>x. [UpdateResource x, UpdateMetadata x]) xs))
     = concat (map (\<lambda>x. [UpdateResource x, UpdateMetadata x]) xs)"
  by (induction xs) (simp_all add: calls_def)

lemma calls_simps [simp]:
  "calls [] = []"
  "calls (Log sev ps # es) = calls es"
  "calls (QueryMetadata t # es) = QueryMetadata t # calls es"
  "calls (UpdateResource x # es) = UpdateResource x # calls es"
  "calls (UpdateMetadata x # es) = UpdateMetadata x # calls es"
  by (simp_all add: calls_def)

lemma verbose_pieces [simp]:
  "calls (if b then [Log sev ps] else []) = []"
  "query_times (if b then [Log sev ps] else []) = []"
  "store_calls (if b then [Log sev ps] else []) = []"
  by (simp_all add: calls_def store_calls_def)

lemma store_calls_append [simp]: "store_calls (es @ fs) = store_calls es @ store_calls fs"
  by (simp add: store_calls_def)

lemma store_calls_simps [simp]:
  "store_calls [] = []"
  "store_calls (Log sev ps # es) = store_calls es"
  "store_calls (QueryMetadata t # es) = store_calls es"
  "store_calls (UpdateResource x # es) = UpdateResource x # store_calls es"
  "store_calls (UpdateMetadata x # es) = UpdateMetadata x # store_calls es"
  by (simp_all add: store_calls_def)

lemma store_calls_callbacks [simp]:
  "store_calls (concat (map (\<lambda>x. [UpdateResource x, UpdateMetadata x]) xs))
     = concat (map (\<lambda>x. [UpdateResource x, UpdateMetadata x]) xs)"
  by (induction xs) simp_all

lemma run_Nil [simp]: "run [] u = u"
  by (simp add: run_def)

lemma run_Cons [simp]: "run (a # script) u = run script (step a u)"
  by (simp add: run_def)

lemma run_append: "run (xs @ ys) u = run ys (run xs u)"
  by (simp add: run_def)

text \<open>What a step does to the worker, by the place where it stands.\<close>

lemma step_period [simp]: "period (step a u) = period u"
  by (cases a) (simp_all split: option.splits worker.splits)

lemma step_name [simp]: "name (step a u) = name u"
  by (cases a) (simp_all split: option.splits worker.splits)

lemma step_VerboseLogging [simp]: "VerboseLogging (step a u) = VerboseLogging u"
  by (cases a) (simp_all split: option.splits worker.splits)

lemma step_no_thread: "reporter_thread u = None \<Longrightarrow> reporter_thread (step a u) = None"
  by (cases a) simp_all

lemma step_no_thread_calls: "reporter_thread u = None \<Longrightarrow> calls (trace (step a u)) = calls (trace u)"
  by (cases a) simp_all

lemma run_no_thread:
  "reporter_thread u = None \<Longrightarrow>
     reporter_thread (run script u) = None \<and> calls (trace (run script u)) = calls (trace u)"
  by (induction script arbitrary: u) (simp_all add: step_no_thread step_no_thread_calls)

lemma step_calls:
  "calls (trace (step a u)) =
     calls (trace u) @
       (case a of QueryReturns t xs now \<Rightarrow>
                    if reporter_thread u = Some AtQuery then round_calls (t, xs) else []
        | _ \<Rightarrow> [])"
  by (cases a) (simp_all add: round_calls_def wait_attempt_trace split: option.splits worker.splits)

lemma run_calls: "\<exists>rs. calls (trace (run script u)) = calls (trace u) @ concat (map round_calls rs)"
proof (induction script arbitrary: u)
  case Nil
  have "calls (trace u) = calls (trace u) @ concat (map round_calls [])" by simp
  then show ?case unfolding run_Nil by blast
next
  case (Cons a script)
  obtain rs where rs: "calls (trace (run script (step a u))) = calls (trace (step a u)) @ concat (map round_calls rs)"
    using Cons.IH by blast
  show ?case
  proof (cases "\<exists>t xs now. a = QueryReturns t xs now \<and> reporter_thread u = Some AtQuery")
    case True
    then obtain t xs now where a: "a = QueryReturns t xs now" "reporter_thread u = Some AtQuery" by blast
    have "calls (trace (run (a # script) u)) = calls (trace u) @ concat (map round_calls ((t, xs) # rs))"
      using rs a by (simp add: round_calls_def)
    then show ?thesis by blast
  next
    case False
    then have "calls (trace (step a u)) = calls (trace u)"
      unfolding step_calls by (cases a) auto
    then show ?thesis using rs by auto
  qed
qed

subsection \<open>The spacing invariant\<close>

lemma spaced_snoc:
  "spaced p (ts @ [t]) \<longleftrightarrow> spaced p ts \<and> (ts \<noteq> [] \<longrightarrow> gap p (last ts) t)"
  by (induction p ts rule: spaced.induct) auto

lemma gap_later: "gap p t1 t2 \<Longrightarrow> t2 \<le> t \<Longrightarrow> gap p t1 t"
  by (simp add: gap_def)

lemma gap_earlier: "gap p t1 t2 \<Longrightarrow> t \<le> t1 \<Longrightarrow> gap p t t2"
  by (simp add: gap_def)

lemma wait_inv_AtQuery:
  "reporter_thread u = Some AtQuery \<Longrightarrow>
     wait_inv lo u \<longleftrightarrow>
       spaced (period u) (query_times (trace u)) \<and>
       (query_times (trace u) \<noteq> [] \<longrightarrow>
          last (query_times (trace u)) \<le> lo \<and> gap (period u) (last (query_times (trace u))) lo)"
  by (auto simp: wait_inv_def)

lemma wait_inv_AtWait:
  "reporter_thread u = Some (AtWait start wakeup) \<Longrightarrow>
     wait_inv lo u \<longleftrightarrow>
       spaced (period u) (query_times (trace u)) \<and>
       wakeup = plus_period start (period u) \<and> 0 \<le> start \<and> start \<le> lo \<and>
       (query_times (trace u) \<noteq> [] \<longrightarrow>
          last (query_times (trace u)) \<le> lo \<and> last (query_times (trace u)) \<le> start)"
  by (auto simp: wait_inv_def)

lemma wait_inv_idle:
  "reporter_thread u = None \<or> reporter_thread u = Some Finished \<Longrightarrow>
     wait_inv lo u \<longleftrightarrow>
       spaced (period u) (query_times (trace u)) \<and>
       (query_times (trace u) \<noteq> [] \<longrightarrow> last (query_times (trace u)) \<le> lo)"
  by (auto simp: wait_inv_def)

lemma wait_inv_later:
  assumes "wait_inv lo u" and "lo \<le> lo'"
  shows "wait_inv lo' u"
proof (cases "reporter_thread u")
  case None
  then show ?thesis using assms by (auto simp: wait_inv_idle)
next
  case (Some w)
  show ?thesis
  proof (cases w)
    case AtQuery
    then show ?thesis using assms Some
      by (auto simp: wait_inv_AtQuery dest: gap_later)
  next
    case (AtWait start wakeup)
    then show ?thesis using assms Some by (auto simp: wait_inv_AtWait)
  next
    case Finished
    then show ?thesis using assms Some by (auto simp: wait_inv_idle)
  qed
qed

lemma wait_inv_NotifyStop: "wait_inv lo (NotifyStopUpdater u) \<longleftrightarrow> wait_inv lo u"
  by (simp add: wait_inv_def split: option.splits worker.splits)

lemma poll_round_wait_inv:
  assumes "wait_inv lo u" and "reporter_thread u = Some AtQuery"
    and "lo \<le> t" and "t \<le> now" and "0 \<le> now"
  shows "wait_inv now (poll_round t xs now u)"
proof -
  have inv: "spaced (period u) (query_times (trace u))"
    "query_times (trace u) \<noteq> [] \<longrightarrow> gap (period u) (last (query_times (trace u))) lo"
    using assms(1,2) by (simp_all add: wait_inv_AtQuery)
  have g: "query_times (trace u) \<noteq> [] \<longrightarrow> gap (period u) (last (query_times (trace u))) t"
    using inv(2) assms(3) by (auto dest: gap_later)
  have thread: "reporter_thread (poll_round t xs now u) = Some (AtWait now (plus_period now (period u)))"
    by simp
  have times: "query_times (trace (poll_round t xs now u)) = query_times (trace u) @ [t]"
    by simp
  show ?thesis
    unfolding wait_inv_AtWait [OF thread] times
    using inv(1) g assms(4,5) by (simp add: spaced_snoc)
qed

lemma wait_attempt_wait_inv:
  assumes "wait_inv lo u" and "reporter_thread u = Some (AtWait start wakeup)"
    and "lo \<le> now" and "0 \<le> now" and "now < 2 ^ 63"
  shows "wait_inv now (wait_attempt now start wakeup u)"
proof -
  have later: "wait_inv now u" using assms(1,3) by (rule wait_inv_later)
  have inv: "spaced (period u) (query_times (trace u))"
    "wakeup = plus_period start (period u)" "0 \<le> start" "start \<le> now"
    "query_times (trace u) \<noteq> [] \<longrightarrow>
       last (query_times (trace u)) \<le> now \<and> last (query_times (trace u)) \<le> start"
    using later assms(2) by (simp_all add: wait_inv_AtWait)
  have times: "query_times (trace (wait_attempt now start wakeup u)) = query_times (trace u)"
    by (simp add: wait_attempt_trace)
  consider (stop) "timer u = Unlocked"
    | (early) "timer u = Locked" "before now wakeup"
    | (tick) "timer u = Locked" "\<not> before now wakeup"
    by (cases "timer u") auto
  then show ?thesis
  proof cases
    case stop
    then have thread: "reporter_thread (wait_attempt now start wakeup u) = None
        \<or> reporter_thread (wait_attempt now start wakeup u) = Some Finished"
      by simp
    show ?thesis unfolding wait_inv_idle [OF thread] times using inv by simp
  next
    case early
    then have "wait_attempt now start wakeup u = u" by (simp add: wait_attempt_def)
    then show ?thesis using later by simp
  next
    case tick
    then have thread: "reporter_thread (wait_attempt now start wakeup u) = Some AtQuery"
      by simp
    have "gap (period u) start now"
      using inv(3,4) assms(5) tick(2) unfolding inv(2) by (rule tick_gap)
    then have "query_times (trace u) \<noteq> [] \<longrightarrow> gap (period u) (last (query_times (trace u))) now"
      using inv(5) gap_earlier [of "period u" start now "last (query_times (trace u))"] by blast
    then show ?thesis unfolding wait_inv_AtQuery [OF thread] times using inv by simp
  qed
qed

lemma step_wait_inv:
  assumes "wait_inv lo u" and "sorted (lo # stamps a)"
    and "list_all (\<lambda>t. 0 \<le> t \<and> t < 2 ^ 63) (stamps a)"
  shows "wait_inv (last (lo # stamps a)) (step a u)"
proof (cases a)
  case CallNotifyStop
  then show ?thesis using assms(1) by (simp add: wait_inv_NotifyStop)
next
  case (QueryReturns t xs now)
  have lo: "lo \<le> t" "t \<le> now" "0 \<le> now" using assms(2,3) QueryReturns by simp_all
  show ?thesis
  proof (cases "reporter_thread u = Some AtQuery")
    case True
    then show ?thesis using poll_round_wait_inv [OF assms(1) True lo] QueryReturns by simp
  next
    case False
    then have "step a u = u" using QueryReturns by (simp split: option.splits worker.splits)
    moreover have "lo \<le> now" using lo by simp
    with assms(1) have "wait_inv now u" by (rule wait_inv_later)
    ultimately show ?thesis using QueryReturns by simp
  qed
next
  case (TryLockReturns now)
  have lo: "lo \<le> now" "0 \<le> now" "now < 2 ^ 63" using assms(2,3) TryLockReturns by simp_all
  show ?thesis
  proof (cases "\<exists>start wakeup. reporter_thread u = Some (AtWait start wakeup)")
    case False
    then have "step a u = u" using TryLockReturns by (simp split: option.splits worker.splits)
    moreover have "wait_inv now u" using assms(1) lo(1) by (rule wait_inv_later)
    ultimately show ?thesis using TryLockReturns by simp
  next
    case True
    then obtain start wakeup where w: "reporter_thread u = Some (AtWait start wakeup)" by blast
    show ?thesis using wait_attempt_wait_inv [OF assms(1) w lo] w TryLockReturns by simp
  qed
qed


lemma run_wait_inv:
  "wait_inv lo u \<Longrightarrow> sorted (lo # concat (map stamps script)) \<Longrightarrow>
   list_all (\<lambda>t. 0 \<le> t \<and> t < 2 ^ 63) (concat (map stamps script)) \<Longrightarrow>
     \<exists>lo'. wait_inv lo' (run script u)"
proof (induction script arbitrary: lo u)
  case Nil
  then show ?case by auto
next
  case (Cons a script)
  have s1: "sorted (lo # stamps a)" using Cons.prems(2) by (auto simp: sorted_append)
  have r1: "list_all (\<lambda>t. 0 \<le> t \<and> t < 2 ^ 63) (stamps a)" using Cons.prems(3) by simp
  have s2: "sorted (last (lo # stamps a) # concat (map stamps script))"
    using Cons.prems(2) by (cases a) (auto simp: sorted_append)
  have r2: "list_all (\<lambda>t. 0 \<le> t \<and> t < 2 ^ 63) (concat (map stamps script))"
    using Cons.prems(3) by simp
  from Cons.IH [OF step_wait_inv [OF Cons.prems(1) s1 r1] s2 r2] show ?case by simp
qed

lemma run_spaced:
  assumes "chronological script" and "clock_range script"
    and "query_times (trace u) = []" and "reporter_thread u = Some AtQuery"
  shows "spaced (period u) (query_times (trace (run script u)))"
proof -
  define ts where "ts = concat (map stamps script)"
  have ts: "sorted ts" using assms(1) by (simp add: chronological_def ts_def)
  have "\<exists>lo. sorted (lo # ts)"
  proof (cases ts)
    case Nil
    then show ?thesis by simp
  next
    case (Cons x xs)
    then have "sorted (x # ts)" using ts by simp
    then show ?thesis by blast
  qed
  then obtain lo where lo: "sorted (lo # concat (map stamps script))"
    unfolding ts_def by blast
  have range: "list_all (\<lambda>t. 0 \<le> t \<and> t < 2 ^ 63) (concat (map stamps script))"
    using assms(2) by (simp add: clock_range_def)
  have "wait_inv lo u" using assms(3,4) by (simp add: wait_inv_def)
  from run_wait_inv [OF this lo range] obtain lo' where "wait_inv lo' (run script u)" by blast
  then have "spaced (period (run script u)) (query_times (trace (run script u)))"
    by (simp add: wait_inv_def)
  moreover have "period (run script u) = period u"
    by (induction script arbitrary: u) simp_all
  ultimately show ?thesis by simp
qed


subsection \<open>Runs that keep the timer or the thread\<close>

lemma query_times_calls: "query_times (calls es) = query_times es"
  by (induction es rule: query_times.induct) simp_all

lemma store_calls_calls: "store_calls (calls es) = store_calls es"
  by (induction es rule: query_times.induct) simp_all

lemma run_period [simp]: "period (run script u) = period u"
  by (induction script arbitrary: u) simp_all

lemma step_timer_Locked:
  "timer u = Locked \<Longrightarrow> a \<noteq> CallNotifyStop \<Longrightarrow> timer (step a u) = Locked"
  by (cases a) (simp_all split: option.splits worker.splits)

lemma step_finishes:
  assumes "reporter_thread u \<noteq> Some Finished" and "reporter_thread (step a u) = Some Finished"
  shows "timer u = Unlocked \<and> timer (step a u) = Locked \<and>
         (\<exists>now start wakeup. a = TryLockReturns now \<and> reporter_thread u = Some (AtWait start wakeup))"
  using assms by (cases a) (auto split: option.splits worker.splits if_splits)

lemma run_without_stop:
  "timer u = Locked \<Longrightarrow> reporter_thread u \<noteq> Some Finished \<Longrightarrow> CallNotifyStop \<notin> set script \<Longrightarrow>
     timer (run script u) = Locked \<and> reporter_thread (run script u) \<noteq> Some Finished"
proof (induction script arbitrary: u)
  case Nil
  then show ?case by simp
next
  case (Cons a script)
  have a: "a \<noteq> CallNotifyStop" and rest: "CallNotifyStop \<notin> set script"
    using Cons.prems(3) by auto
  have t: "timer (step a u) = Locked" using Cons.prems(1) a by (rule step_timer_Locked)
  have "reporter_thread (step a u) \<noteq> Some Finished"
    using step_finishes [of u a] Cons.prems(1,2) by auto
  from Cons.IH [OF t this rest] show ?case by simp
qed

lemma step_keeps_thread: "reporter_thread u \<noteq> None \<Longrightarrow> reporter_thread (step a u) \<noteq> None"
  by (cases a) (auto split: option.splits worker.splits)


lemma stop_then_one_round:
  assumes "reporter_thread u \<noteq> None"
  shows "reporter_thread (run [QueryReturns t xs now, TryLockReturns now'] (NotifyStopUpdater u)) = Some Finished"
proof -
  obtain w where w: "reporter_thread u = Some w" using assms by auto
  show ?thesis using w by (cases w) simp_all
qed

lemma Substitute_period:
  "Substitute ''Polling period {{period}}s cannot be negative'' [(''period'', v)]
     = ''Polling period '' @ v @ ''s cannot be negative''"
  by (simp add: Substitute_def)

lemma Polling_fields [simp]:
  "hook_ValidateStaticConfiguration (Polling str dyn) = ValidateStaticConfiguration str"
  "hook_ShouldStartUpdater (Polling str dyn) = ShouldStartUpdater"
  "hook_ValidateDynamicConfiguration (Polling str dyn) = dyn"
  "hook_StartUpdater (Polling str dyn) = StartUpdater"
  "hook_NotifyStopUpdater (Polling str dyn) = NotifyStopUpdater"
  by (simp_all add: Polling_def)

lemma run_no_thread_queries:
  "reporter_thread u = None \<Longrightarrow> query_times (trace (run script u)) = query_times (trace u)"
  using run_no_thread [of u script] query_times_calls [of "trace (run script u)"]
    query_times_calls [of "trace u"] by simp

lemma run_no_thread_store:
  "reporter_thread u = None \<Longrightarrow> store_calls (trace (run script u)) = store_calls (trace u)"
  using run_no_thread [of u script] store_calls_calls [of "trace (run script u)"]
    store_calls_calls [of "trace u"] by simp

lemma run_timer_Locked:
  "timer u = Locked \<Longrightarrow> CallNotifyStop \<notin> set script \<Longrightarrow> timer (run script u) = Locked"
proof (induction script arbitrary: u)
  case Nil
  then show ?case by simp
next
  case (Cons a script)
  have "timer (step a u) = Locked"
    using Cons.prems by (intro step_timer_Locked) auto
  then show ?case using Cons.IH [of "step a u"] Cons.prems(2) by simp
qed

lemma run_keeps_thread: "reporter_thread u \<noteq> None \<Longrightarrow> reporter_thread (run script u) \<noteq> None"
proof (induction script arbitrary: u)
  case Nil
  then show ?case by simp
next
  case (Cons a script)
  from Cons.IH [OF step_keeps_thread [OF Cons.prems]] show ?case by simp
qed

lemma step_Finished: "reporter_thread u = Some Finished \<Longrightarrow> reporter_thread (step a u) = Some Finished"
  by (cases a) simp_all

lemma run_Finished: "reporter_thread u = Some Finished \<Longrightarrow> reporter_thread (run script u) = Some Finished"
proof (induction script arbitrary: u)
  case Nil
  then show ?case by simp
next
  case (Cons a script)
  from Cons.IH [OF step_Finished [OF Cons.prems]] show ?case by simp
qed

lemma step_stays_Unlocked:
  "timer u = Unlocked \<Longrightarrow> reporter_thread (step a u) \<noteq> Some Finished \<Longrightarrow> timer (step a u) = Unlocked"
  by (cases a) (auto simp: wait_attempt_def split: option.splits worker.splits)

lemma run_stays_Unlocked:
  "timer u = Unlocked \<Longrightarrow> reporter_thread (run script u) \<noteq> Some Finished \<Longrightarrow>
     timer (run script u) = Unlocked"
proof (induction script arbitrary: u)
  case Nil
  then show ?case by simp
next
  case (Cons a script)
  have run: "reporter_thread (run script (step a u)) \<noteq> Some Finished"
    using Cons.prems(2) by simp
  then have "reporter_thread (step a u) \<noteq> Some Finished"
    using run_Finished [of "step a u" script] by blast
  then have "timer (step a u) = Unlocked"
    using Cons.prems(1) by (intro step_stays_Unlocked)
  from Cons.IH [OF this run] show ?case by simp
qed

subsection \<open>The stream operations of the log sink\<close>







lemma flush_contents [simp]: "contents (ostream_flush os) = contents os"
  by (simp add: ostream_flush_def contents_def)

lemma flush_state [simp]:
  "os_accepts (ostream_flush os) = os_accepts os"
  "os_width (ostream_flush os) = os_width os"
  by (simp_all add: ostream_flush_def)





subsection \<open>The claims\<close>

text \<open>
  C1, as amended. The bounded wait of the poll loop. For a worker at the wait with
  deadline \<open>wakeup\<close>: the return of \<open>try_lock_until\<close> ends \<open>PollForMetadata\<close> (stop) if
  and only if the timer has been released; it sends the worker back to the query (tick)
  if and only if the timer is still locked and \<open>now < wakeup\<close> is false in the
  arithmetic of \<open>double\<close>; a return with the timer locked and \<open>now < wakeup\<close> true changes
  nothing, so the same wait, with the same deadline, is made again. The only step by
  which the worker finishes is a return of \<open>try_lock_until\<close> that found the timer
  released. A round leaves the worker waiting for \<open>start + period_\<close> as \<open>double\<close>
  computes it, and a reading of a 64-bit clock that is not before this deadline is at
  least one period after \<open>start\<close>, up to the rounding: less a fraction \<open>2^-52\<close> of the
  period and 3072 nanoseconds. Without a call of \<open>NotifyStop\<close> the started worker never
  finishes; and on every run whose times are readings of a 64-bit clock in chronological
  order, consecutive query calls are one period apart up to the same rounding.
\<close>

theorem bounded_wait_stop_or_tick:
  "(reporter_thread u = Some (AtWait start wakeup) \<longrightarrow>
      (reporter_thread (step (TryLockReturns now) u) = Some Finished \<longleftrightarrow> timer u = Unlocked)
    \<and> (reporter_thread (step (TryLockReturns now) u) = Some AtQuery
         \<longleftrightarrow> timer u = Locked \<and> \<not> before now wakeup)
    \<and> (timer u = Locked \<and> before now wakeup \<longrightarrow> step (TryLockReturns now) u = u))
 \<and> (reporter_thread u \<noteq> Some Finished \<and> reporter_thread (step a u) = Some Finished \<longrightarrow>
      timer u = Unlocked \<and>
      (\<exists>now' start' wakeup'. a = TryLockReturns now' \<and> reporter_thread u = Some (AtWait start' wakeup')))
 \<and> (reporter_thread u = Some AtQuery \<longrightarrow>
      reporter_thread (step (QueryReturns t xs now) u) = Some (AtWait now (plus_period now (period u))))
 \<and> (0 \<le> start \<and> start \<le> now \<and> now < 2 ^ 63 \<and> \<not> before now (plus_period start (period u)) \<longrightarrow>
      gap (period u) start now)
 \<and> (CallNotifyStop \<notin> set script \<longrightarrow> reporter_thread (run script (StartUpdater u)) \<noteq> Some Finished)
 \<and> (chronological script \<and> clock_range script \<and> query_times (trace u) = [] \<longrightarrow>
      spaced (period u) (query_times (trace (run script (StartUpdater u)))))"
proof -
  have wait: "reporter_thread u = Some (AtWait start wakeup) \<longrightarrow>
      (reporter_thread (step (TryLockReturns now) u) = Some Finished \<longleftrightarrow> timer u = Unlocked)
    \<and> (reporter_thread (step (TryLockReturns now) u) = Some AtQuery
         \<longleftrightarrow> timer u = Locked \<and> \<not> before now wakeup)
    \<and> (timer u = Locked \<and> before now wakeup \<longrightarrow> step (TryLockReturns now) u = u)"
    by (cases "timer u") (auto simp: wait_attempt_def)
  have exit: "reporter_thread u \<noteq> Some Finished \<and> reporter_thread (step a u) = Some Finished \<longrightarrow>
      timer u = Unlocked \<and>
      (\<exists>now' start' wakeup'. a = TryLockReturns now' \<and> reporter_thread u = Some (AtWait start' wakeup'))"
    using step_finishes [of u a] by blast
  have round: "reporter_thread u = Some AtQuery \<longrightarrow>
      reporter_thread (step (QueryReturns t xs now) u) = Some (AtWait now (plus_period now (period u)))"
    by simp
  have deadline: "0 \<le> start \<and> start \<le> now \<and> now < 2 ^ 63 \<and>
      \<not> before now (plus_period start (period u)) \<longrightarrow> gap (period u) start now"
    using tick_gap [of start now "period u"] by blast
  have never: "CallNotifyStop \<notin> set script \<longrightarrow> reporter_thread (run script (StartUpdater u)) \<noteq> Some Finished"
    using run_without_stop [of "StartUpdater u" script] by simp
  have space: "chronological script \<and> clock_range script \<and> query_times (trace u) = [] \<longrightarrow>
      spaced (period u) (query_times (trace (run script (StartUpdater u))))"
    using run_spaced [of script "StartUpdater u"] by simp
  from wait exit round deadline never space show ?thesis by blast
qed

theorem bounded_wait_stop_or_tick_witness:
  "reporter_thread (step (QueryReturns 0 [] 1) (StartUpdater (PollingMetadataUpdater False ''poller'' 10 :: nat updater)))
     = Some (AtWait 1 10000000001)
 \<and> timer (step (QueryReturns 0 [] 1) (StartUpdater (PollingMetadataUpdater False ''poller'' 10 :: nat updater))) = Locked
 \<and> before 5 10000000001
 \<and> step (TryLockReturns 5) (step (QueryReturns 0 [] 1) (StartUpdater (PollingMetadataUpdater False ''poller'' 10 :: nat updater)))
     = step (QueryReturns 0 [] 1) (StartUpdater (PollingMetadataUpdater False ''poller'' 10))
 \<and> \<not> before 10000000001 10000000001
 \<and> reporter_thread (step (TryLockReturns 10000000001) (step (QueryReturns 0 [] 1)
       (StartUpdater (PollingMetadataUpdater False ''poller'' 10 :: nat updater)))) = Some AtQuery
 \<and> gap 10 1 10000000001
 \<and> reporter_thread (step (TryLockReturns 5) (NotifyStopUpdater (step (QueryReturns 0 [] 1)
       (StartUpdater (PollingMetadataUpdater False ''poller'' 10 :: nat updater))))) = Some Finished
 \<and> CallNotifyStop \<notin> set [QueryReturns 0 [7::nat] 1, TryLockReturns 5, TryLockReturns 10000000001,
       QueryReturns 10000000002 [] 10000000003]
 \<and> reporter_thread (run [QueryReturns 0 [7::nat] 1, TryLockReturns 5, TryLockReturns 10000000001,
       QueryReturns 10000000002 [] 10000000003]
       (StartUpdater (PollingMetadataUpdater False ''poller'' 10))) = Some (AtWait 10000000003 20000000003)
 \<and> chronological [QueryReturns 0 [7::nat] 1, TryLockReturns 5, TryLockReturns 10000000001,
       QueryReturns 10000000002 [] 10000000003]
 \<and> clock_range [QueryReturns 0 [7::nat] 1, TryLockReturns 5, TryLockReturns 10000000001,
       QueryReturns 10000000002 [] 10000000003]
 \<and> query_times (trace (PollingMetadataUpdater False ''poller'' 10 :: nat updater)) = []
 \<and> query_times (trace (run [QueryReturns 0 [7::nat] 1, TryLockReturns 5, TryLockReturns 10000000001,
       QueryReturns 10000000002 [] 10000000003]
       (StartUpdater (PollingMetadataUpdater False ''poller'' 10)))) = [0, 10000000002]
 \<and> spaced 10 (query_times (trace (run [QueryReturns 0 [7::nat] 1, TryLockReturns 5,
       TryLockReturns 10000000001, QueryReturns 10000000002 [] 10000000003]
       (StartUpdater (PollingMetadataUpdater False ''poller'' 10)))))"
  using bounded_wait_stop_or_tick
          [of "step (QueryReturns 0 [] 1) (StartUpdater (PollingMetadataUpdater False ''poller'' 10 :: nat updater))"
              1 10000000001 5 "TryLockReturns 5" 0 "[]" "[]"]
        bounded_wait_stop_or_tick
          [of "step (QueryReturns 0 [] 1) (StartUpdater (PollingMetadataUpdater False ''poller'' 10 :: nat updater))"
              1 10000000001 10000000001 "TryLockReturns 10000000001" 0 "[]" "[]"]
        bounded_wait_stop_or_tick
          [of "NotifyStopUpdater (step (QueryReturns 0 [] 1) (StartUpdater (PollingMetadataUpdater False ''poller'' 10 :: nat updater)))"
              1 10000000001 5 "TryLockReturns 5" 0 "[]" "[]"]
        bounded_wait_stop_or_tick
          [of "PollingMetadataUpdater False ''poller'' 10 :: nat updater"
              1 10000000001 5 "TryLockReturns 5" 0 "[]"
              "[QueryReturns 0 [7::nat] 1, TryLockReturns 5, TryLockReturns 10000000001,
                QueryReturns 10000000002 [] 10000000003]"]
  by (simp add: wait_attempt_def chronological_def clock_range_def PollingMetadataUpdater_def
        before_def plus_period_def gap_def)

text \<open>
  The claim as first stated, with the deadline \<open>start + period\<close> taken exactly, fails.
  With a period of a quarter of a second and the clock at 1800000000000000100
  nanoseconds, where neighbouring doubles are 256 apart, the deadline is computed as
  1800000000249999872 and the reading 1800000000249999744 is converted to the same
  double: the wait ends with a tick 356 nanoseconds before \<open>start + period\<close>, and the
  next query call follows the previous one by less than the period.
\<close>

theorem tick_before_deadline_counterexample:
  "reporter_thread (step (QueryReturns 1800000000000000100 [] 1800000000000000100)
      (StartUpdater (PollingMetadataUpdater False ''poller'' (1 / 4) :: nat updater)))
     = Some (AtWait 1800000000000000100 1800000000249999872)
 \<and> timer (step (QueryReturns 1800000000000000100 [] 1800000000000000100)
      (StartUpdater (PollingMetadataUpdater False ''poller'' (1 / 4) :: nat updater))) = Locked
 \<and> reporter_thread (step (TryLockReturns 1800000000249999744)
      (step (QueryReturns 1800000000000000100 [] 1800000000000000100)
        (StartUpdater (PollingMetadataUpdater False ''poller'' (1 / 4) :: nat updater)))) = Some AtQuery
 \<and> (1800000000249999744 :: real) < 1800000000000000100 + 1 / 4 * 1000000000
 \<and> chronological [QueryReturns 1800000000000000100 ([] :: nat list) 1800000000000000100,
      TryLockReturns 1800000000249999744,
      QueryReturns 1800000000249999744 [] 1800000000249999744]
 \<and> clock_range [QueryReturns 1800000000000000100 ([] :: nat list) 1800000000000000100,
      TryLockReturns 1800000000249999744,
      QueryReturns 1800000000249999744 [] 1800000000249999744]
 \<and> query_times (trace (run [QueryReturns 1800000000000000100 [] 1800000000000000100,
      TryLockReturns 1800000000249999744,
      QueryReturns 1800000000249999744 [] 1800000000249999744]
      (StartUpdater (PollingMetadataUpdater False ''poller'' (1 / 4) :: nat updater))))
     = [1800000000000000100, 1800000000249999744]
 \<and> \<not> spaced_exactly (1 / 4) (query_times (trace (run
      [QueryReturns 1800000000000000100 [] 1800000000000000100,
       TryLockReturns 1800000000249999744,
       QueryReturns 1800000000249999744 [] 1800000000249999744]
      (StartUpdater (PollingMetadataUpdater False ''poller'' (1 / 4) :: nat updater)))))"
  by (simp add: PollingMetadataUpdater_def chronological_def clock_range_def before_def
        plus_period_early to_double_now wait_attempt_trace)

text \<open>
  C2. For every period below zero, \<open>Start\<close> of the polling updater throws a
  \<open>ConfigurationValidationError\<close> whose message is \<open>Polling period \<close>, the rendered
  period and \<open>s cannot be negative\<close>. The exception leaves \<open>Start\<close> before
  \<open>StartUpdater\<close> is reached, so the updater is as the constructor left it: it has no
  worker thread, and whatever happens afterwards no thread appears, no store callback is
  invoked and the query function is not called.
\<close>

theorem Start_negative_period:
  "(period u < 0 \<longrightarrow>
      Start (Polling str dyn) u
        = Inl (ConfigurationValidationError (''Polling period '' @ str (period u) @ ''s cannot be negative'')))
 \<and> (reporter_thread u = None \<longrightarrow>
      reporter_thread (run script u) = None \<and>
      store_calls (trace (run script u)) = store_calls (trace u) \<and>
      query_times (trace (run script u)) = query_times (trace u))
 \<and> reporter_thread (PollingMetadataUpdater verbose nm period_s :: 'r updater) = None
 \<and> trace (PollingMetadataUpdater verbose nm period_s :: 'r updater) = []
 \<and> period (PollingMetadataUpdater verbose nm period_s :: 'r updater) = period_s"
proof -
  have "period u < 0 \<longrightarrow>
      Start (Polling str dyn) u
        = Inl (ConfigurationValidationError (''Polling period '' @ str (period u) @ ''s cannot be negative''))"
    by (simp add: Start_def ValidateStaticConfiguration_def Substitute_period)
  moreover have "reporter_thread u = None \<longrightarrow>
      reporter_thread (run script u) = None \<and>
      store_calls (trace (run script u)) = store_calls (trace u) \<and>
      query_times (trace (run script u)) = query_times (trace u)"
    using run_no_thread [of u script] run_no_thread_store [of u script]
      run_no_thread_queries [of u script] by blast
  moreover have "reporter_thread (PollingMetadataUpdater verbose nm period_s :: 'r updater) = None
     \<and> trace (PollingMetadataUpdater verbose nm period_s :: 'r updater) = []
     \<and> period (PollingMetadataUpdater verbose nm period_s :: 'r updater) = period_s"
    by (simp add: PollingMetadataUpdater_def)
  ultimately show ?thesis by blast
qed

theorem Start_negative_period_witness:
  "period (PollingMetadataUpdater True ''poller'' (- 5) :: nat updater) < 0
 \<and> Start (Polling (\<lambda>x. if x = - 5 then ''-5'' else ''?'') (\<lambda>u. None))
      (PollingMetadataUpdater True ''poller'' (- 5) :: nat updater)
     = Inl (ConfigurationValidationError ''Polling period -5s cannot be negative'')
 \<and> reporter_thread (PollingMetadataUpdater True ''poller'' (- 5) :: nat updater) = None
 \<and> reporter_thread (run [QueryReturns 0 [3] 1, CallNotifyStop, TryLockReturns 2]
      (PollingMetadataUpdater True ''poller'' (- 5) :: nat updater)) = None
 \<and> store_calls (trace (run [QueryReturns 0 [3] 1, CallNotifyStop, TryLockReturns 2]
      (PollingMetadataUpdater True ''poller'' (- 5) :: nat updater))) = []"
  using Start_negative_period
          [of "PollingMetadataUpdater True ''poller'' (- 5) :: nat updater"
              "\<lambda>x. if x = - 5 then ''-5'' else ''?''" "\<lambda>u. None"
              "[QueryReturns 0 [3] 1, CallNotifyStop, TryLockReturns 2]" True "''poller''" "- 5"]
  by (simp add: PollingMetadataUpdater_def)

text \<open>
  C3, as amended. The destructor returns exactly when the thread is not joinable or the
  worker has finished; when it returns it has changed neither the timer nor the trace (it
  requests no stop) and the thread is joined. After \<open>NotifyStop\<close>, a worker that
  completes its round in flight and reaches its \<open>try_lock_until\<close> has finished, so the
  destructor returns. With the timer locked and no call of \<open>NotifyStop\<close>, the destructor
  of an updater with a running worker does not return, however far the worker runs.
\<close>

theorem destructor_joins_after_stop:
  "(destructor u \<noteq> None \<longleftrightarrow> reporter_thread u = None \<or> reporter_thread u = Some Finished)
 \<and> (destructor u = Some u' \<longrightarrow>
      timer u' = timer u \<and> trace u' = trace u \<and> reporter_thread u' = None)
 \<and> (reporter_thread u \<noteq> None \<longrightarrow>
      (\<exists>u'. destructor (run [QueryReturns t xs now, TryLockReturns now'] (NotifyStopUpdater u)) = Some u'
            \<and> reporter_thread u' = None))
 \<and> (timer u = Locked \<and> reporter_thread u \<noteq> None \<and> reporter_thread u \<noteq> Some Finished \<and>
    CallNotifyStop \<notin> set script \<longrightarrow> destructor (run script u) = None)"
proof -
  have returns: "destructor u \<noteq> None \<longleftrightarrow> reporter_thread u = None \<or> reporter_thread u = Some Finished"
    by (auto simp: destructor_def split: option.splits worker.splits)
  have keeps: "destructor u = Some u' \<longrightarrow>
      timer u' = timer u \<and> trace u' = trace u \<and> reporter_thread u' = None"
    by (auto simp: destructor_def split: option.splits worker.splits)
  have stop: "reporter_thread u \<noteq> None \<longrightarrow>
      (\<exists>u'. destructor (run [QueryReturns t xs now, TryLockReturns now'] (NotifyStopUpdater u)) = Some u'
            \<and> reporter_thread u' = None)"
    using stop_then_one_round [of u t xs now now'] by (simp add: destructor_def)
  have "timer u = Locked \<and> reporter_thread u \<noteq> None \<and> reporter_thread u \<noteq> Some Finished \<and>
    CallNotifyStop \<notin> set script \<longrightarrow> destructor (run script u) = None"
  proof (intro impI, elim conjE)
    assume a: "timer u = Locked" "reporter_thread u \<noteq> None" "reporter_thread u \<noteq> Some Finished"
      "CallNotifyStop \<notin> set script"
    have "reporter_thread (run script u) \<noteq> Some Finished"
      using run_without_stop [OF a(1) a(3) a(4)] by simp
    moreover have "reporter_thread (run script u) \<noteq> None"
      using a(2) by (rule run_keeps_thread)
    ultimately show "destructor (run script u) = None"
      by (auto simp: destructor_def split: option.splits worker.splits)
  qed
  with returns keeps stop show ?thesis by blast
qed

theorem destructor_joins_after_stop_witness:
  "reporter_thread (StartUpdater (PollingMetadataUpdater False ''poller'' 10 :: nat updater)) = Some AtQuery
 \<and> timer (StartUpdater (PollingMetadataUpdater False ''poller'' 10 :: nat updater)) = Locked
 \<and> CallNotifyStop \<notin> set [QueryReturns 0 [3::nat] 1, TryLockReturns 5000000000]
 \<and> destructor (run [QueryReturns 0 [3] 1, TryLockReturns 5000000000]
      (StartUpdater (PollingMetadataUpdater False ''poller'' 10 :: nat updater))) = None
 \<and> reporter_thread (run [QueryReturns 0 [3] 1, TryLockReturns 2]
      (NotifyStopUpdater (StartUpdater (PollingMetadataUpdater False ''poller'' 10 :: nat updater))))
     = Some Finished
 \<and> destructor (run [QueryReturns 0 [3] 1, TryLockReturns 2]
      (NotifyStopUpdater (StartUpdater (PollingMetadataUpdater False ''poller'' 10 :: nat updater))))
     = Some ((run [QueryReturns 0 [3] 1, TryLockReturns 2]
      (NotifyStopUpdater (StartUpdater (PollingMetadataUpdater False ''poller'' 10 :: nat updater))))
        \<lparr>reporter_thread := None\<rparr>)
 \<and> timer (the (destructor (run [QueryReturns 0 [3] 1, TryLockReturns 2]
      (NotifyStopUpdater (StartUpdater (PollingMetadataUpdater False ''poller'' 10 :: nat updater)))))) = Locked"
  using destructor_joins_after_stop
          [of "StartUpdater (PollingMetadataUpdater False ''poller'' 10 :: nat updater)"
              "StartUpdater (PollingMetadataUpdater False ''poller'' 10 :: nat updater)"
              0 "[3]" 1 2 "[QueryReturns 0 [3] 1, TryLockReturns 5000000000]"]
        destructor_joins_after_stop
          [of "run [QueryReturns 0 [3] 1, TryLockReturns 2]
                 (NotifyStopUpdater (StartUpdater (PollingMetadataUpdater False ''poller'' 10 :: nat updater)))"
              "(run [QueryReturns 0 [3] 1, TryLockReturns 2]
                 (NotifyStopUpdater (StartUpdater (PollingMetadataUpdater False ''poller'' 10 :: nat updater))))
                 \<lparr>reporter_thread := None\<rparr>"
              0 "[3]" 1 2 "[]"]
  by (simp add: destructor_def PollingMetadataUpdater_def before_def plus_period_def)

text \<open>
  The claim as first stated, that destruction requests the stop itself, fails: on a
  started updater on which \<open>NotifyStop\<close> was never called, the destructor has not
  returned, before or after two full rounds of the worker, and the timer is still locked.
\<close>

theorem destructor_requests_stop_counterexample:
  "destructor (StartUpdater (PollingMetadataUpdater False ''poller'' 10 :: nat updater)) = None
 \<and> reporter_thread (run [QueryReturns 0 [] 1, TryLockReturns 10000000001,
      QueryReturns 10000000001 [] 10000000002, TryLockReturns 20000000002]
      (StartUpdater (PollingMetadataUpdater False ''poller'' 10 :: nat updater))) = Some AtQuery
 \<and> destructor (run [QueryReturns 0 [] 1, TryLockReturns 10000000001,
      QueryReturns 10000000001 [] 10000000002, TryLockReturns 20000000002]
      (StartUpdater (PollingMetadataUpdater False ''poller'' 10 :: nat updater))) = None
 \<and> timer (run [QueryReturns 0 [] 1, TryLockReturns 10000000001,
      QueryReturns 10000000001 [] 10000000002, TryLockReturns 20000000002]
      (StartUpdater (PollingMetadataUpdater False ''poller'' 10 :: nat updater))) = Locked"
  by (simp add: destructor_def PollingMetadataUpdater_def before_def plus_period_def)

text \<open>
  C4. With a period above zero and a passing dynamic validation, \<open>Start\<close> leaves the
  worker at the query call, before any wait, and has called neither the query function
  nor the store. A round whose query returns \<open>[A, B, C]\<close> adds to the calls seen outside
  exactly the query followed by resource update and metadata update of \<open>A\<close>, of \<open>B\<close> and
  of \<open>C\<close>, in this order (for any result, the pair of each item in the order of the
  result). On every run, the calls are whole rounds one after the other: no round starts
  before the previous one has passed all its items.
\<close>

theorem poll_round_store_order:
  "(0 < period u \<and> dyn u = None \<longrightarrow>
      Start (Polling str dyn) u = Inr (StartUpdater u) \<and>
      reporter_thread (StartUpdater u) = Some AtQuery \<and>
      calls (trace (StartUpdater u)) = calls (trace u))
 \<and> (reporter_thread u = Some AtQuery \<longrightarrow>
      calls (trace (step (QueryReturns t [A, B, C] now) u))
        = calls (trace u) @
          [QueryMetadata t, UpdateResource A, UpdateMetadata A, UpdateResource B, UpdateMetadata B,
           UpdateResource C, UpdateMetadata C] \<and>
      store_calls (trace (step (QueryReturns t xs now) u))
        = store_calls (trace u) @ concat (map (\<lambda>x. [UpdateResource x, UpdateMetadata x]) xs))
 \<and> (\<exists>rs. calls (trace (run script (StartUpdater u))) = calls (trace u) @ concat (map round_calls rs))"
proof -
  have start: "0 < period u \<and> dyn u = None \<longrightarrow>
      Start (Polling str dyn) u = Inr (StartUpdater u) \<and>
      reporter_thread (StartUpdater u) = Some AtQuery \<and>
      calls (trace (StartUpdater u)) = calls (trace u)"
    by (simp add: Start_def ValidateStaticConfiguration_def ShouldStartUpdater_def)
  have round: "reporter_thread u = Some AtQuery \<longrightarrow>
      calls (trace (step (QueryReturns t [A, B, C] now) u))
        = calls (trace u) @
          [QueryMetadata t, UpdateResource A, UpdateMetadata A, UpdateResource B, UpdateMetadata B,
           UpdateResource C, UpdateMetadata C] \<and>
      store_calls (trace (step (QueryReturns t xs now) u))
        = store_calls (trace u) @ concat (map (\<lambda>x. [UpdateResource x, UpdateMetadata x]) xs)"
    by simp
  have "\<exists>rs. calls (trace (run script (StartUpdater u)))
                = calls (trace (StartUpdater u)) @ concat (map round_calls rs)"
    by (rule run_calls)
  then have rounds: "\<exists>rs. calls (trace (run script (StartUpdater u)))
                = calls (trace u) @ concat (map round_calls rs)"
    by simp
  from start round rounds show ?thesis by blast
qed

theorem poll_round_store_order_witness:
  "0 < period (PollingMetadataUpdater True ''poller'' 60 :: string updater)
 \<and> Start (Polling (\<lambda>x. ''60'') (\<lambda>u. None)) (PollingMetadataUpdater True ''poller'' 60 :: string updater)
     = Inr (StartUpdater (PollingMetadataUpdater True ''poller'' 60))
 \<and> reporter_thread (StartUpdater (PollingMetadataUpdater True ''poller'' 60 :: string updater)) = Some AtQuery
 \<and> calls (trace (step (QueryReturns 0 [''A'', ''B'', ''C''] 1)
      (StartUpdater (PollingMetadataUpdater True ''poller'' 60 :: string updater))))
     = [QueryMetadata 0, UpdateResource ''A'', UpdateMetadata ''A'', UpdateResource ''B'',
        UpdateMetadata ''B'', UpdateResource ''C'', UpdateMetadata ''C'']
 \<and> calls (trace (run [QueryReturns 0 [''A'', ''B''] 1, TryLockReturns 30, TryLockReturns 60000000001,
                       QueryReturns 60000000001 [''C''] 60000000002]
      (StartUpdater (PollingMetadataUpdater True ''poller'' 60 :: string updater))))
     = concat (map round_calls [(0, [''A'', ''B'']), (60000000001, [''C''])])"
  using poll_round_store_order
          [of "PollingMetadataUpdater True ''poller'' 60 :: string updater" "\<lambda>u. None" "\<lambda>x. ''60''"
              0 "''A''" "''B''" "''C''" 1 "[]" "[]"]
        poll_round_store_order
          [of "StartUpdater (PollingMetadataUpdater True ''poller'' 60 :: string updater)" "\<lambda>u. None"
              "\<lambda>x. ''60''" 0 "''A''" "''B''" "''C''" 1 "[]" "[]"]
  by (simp add: PollingMetadataUpdater_def round_calls_def wait_attempt_trace before_def plus_period_def)

text \<open>
  C5. The steps of \<open>Start\<close>, in order, for any table of hooks: an error of the static
  validation leaves \<open>Start\<close> at once, whatever the other hooks would do; with a valid
  static configuration and \<open>ShouldStartUpdater\<close> false, \<open>Start\<close> adds to the trace one
  log statement, the skip notice \<open>Not starting\<close> with the name at severity \<open>INFO\<close>, and
  changes neither the thread nor the timer, without consulting the dynamic validation; with \<open>ShouldStartUpdater\<close> true, an error of the dynamic validation
  leaves \<open>Start\<close>, and otherwise the result is that of \<open>StartUpdater\<close>, which for the
  polling updater locks the timer and has the worker thread running at its entry.
\<close>

theorem Start_steps_in_order:
  "(hook_ValidateStaticConfiguration h u = Some e \<longrightarrow> Start h u = Inl e)
 \<and> (hook_ValidateStaticConfiguration h u = None \<and> \<not> hook_ShouldStartUpdater h u \<longrightarrow>
      Start h u = Inr (emit (Log INFO [Text ''Not starting '', Text (name u)]) u) \<and>
      trace (emit (Log INFO [Text ''Not starting '', Text (name u)]) u)
        = trace u @ [Log INFO [Text ''Not starting '', Text (name u)]] \<and>
      reporter_thread (emit (Log INFO [Text ''Not starting '', Text (name u)]) u) = reporter_thread u \<and>
      timer (emit (Log INFO [Text ''Not starting '', Text (name u)]) u) = timer u)
 \<and> (hook_ValidateStaticConfiguration h u = None \<and> hook_ShouldStartUpdater h u \<and>
    hook_ValidateDynamicConfiguration h u = Some e \<longrightarrow> Start h u = Inl e)
 \<and> (hook_ValidateStaticConfiguration h u = None \<and> hook_ShouldStartUpdater h u \<and>
    hook_ValidateDynamicConfiguration h u = None \<longrightarrow> Start h u = Inr (hook_StartUpdater h u))
 \<and> hook_StartUpdater (Polling str dyn) u = StartUpdater u
 \<and> reporter_thread (StartUpdater u) = Some AtQuery
 \<and> timer (StartUpdater u) = Locked"
proof -
  have static: "hook_ValidateStaticConfiguration h u = Some e \<longrightarrow> Start h u = Inl e"
    by (simp add: Start_def)
  have skip: "hook_ValidateStaticConfiguration h u = None \<and> \<not> hook_ShouldStartUpdater h u \<longrightarrow>
      Start h u = Inr (emit (Log INFO [Text ''Not starting '', Text (name u)]) u) \<and>
      trace (emit (Log INFO [Text ''Not starting '', Text (name u)]) u)
        = trace u @ [Log INFO [Text ''Not starting '', Text (name u)]] \<and>
      reporter_thread (emit (Log INFO [Text ''Not starting '', Text (name u)]) u) = reporter_thread u \<and>
      timer (emit (Log INFO [Text ''Not starting '', Text (name u)]) u) = timer u"
    by (simp add: Start_def)
  have dynamic: "hook_ValidateStaticConfiguration h u = None \<and> hook_ShouldStartUpdater h u \<and>
    hook_ValidateDynamicConfiguration h u = Some e \<longrightarrow> Start h u = Inl e"
    by (simp add: Start_def)
  have running: "hook_ValidateStaticConfiguration h u = None \<and> hook_ShouldStartUpdater h u \<and>
    hook_ValidateDynamicConfiguration h u = None \<longrightarrow> Start h u = Inr (hook_StartUpdater h u)"
    by (simp add: Start_def)
  from static skip dynamic running show ?thesis by simp
qed

theorem Start_steps_in_order_witness:
  "hook_ValidateStaticConfiguration (Polling (\<lambda>x. ''-1'') (\<lambda>u. Some (ConfigurationValidationError ''dynamic'')))
     (PollingMetadataUpdater False ''poller'' (- 1) :: nat updater)
     = Some (ConfigurationValidationError ''Polling period -1s cannot be negative'')
 \<and> Start (Polling (\<lambda>x. ''-1'') (\<lambda>u. Some (ConfigurationValidationError ''dynamic'')))
     (PollingMetadataUpdater False ''poller'' (- 1) :: nat updater)
     = Inl (ConfigurationValidationError ''Polling period -1s cannot be negative'')
 \<and> Start (Polling (\<lambda>x. ''0'') (\<lambda>u. Some (ConfigurationValidationError ''dynamic'')))
     (PollingMetadataUpdater False ''poller'' 0 :: nat updater)
     = Inr (emit (Log INFO [Text ''Not starting '', Text ''poller'']) (PollingMetadataUpdater False ''poller'' 0))
 \<and> trace (emit (Log INFO [Text ''Not starting '', Text ''poller''])
       (PollingMetadataUpdater False ''poller'' 0 :: nat updater))
     = [Log INFO [Text ''Not starting '', Text ''poller'']]
 \<and> reporter_thread (emit (Log INFO [Text ''Not starting '', Text ''poller''])
       (PollingMetadataUpdater False ''poller'' 0 :: nat updater)) = None
 \<and> timer (emit (Log INFO [Text ''Not starting '', Text ''poller''])
       (PollingMetadataUpdater False ''poller'' 0 :: nat updater)) = Unlocked
 \<and> Start (Polling (\<lambda>x. ''1'') (\<lambda>u. Some (ConfigurationValidationError ''dynamic'')))
     (PollingMetadataUpdater False ''poller'' 1 :: nat updater)
     = Inl (ConfigurationValidationError ''dynamic'')
 \<and> Start (Polling (\<lambda>x. ''1'') (\<lambda>u. None)) (PollingMetadataUpdater False ''poller'' 1 :: nat updater)
     = Inr (StartUpdater (PollingMetadataUpdater False ''poller'' 1))
 \<and> reporter_thread (StartUpdater (PollingMetadataUpdater False ''poller'' 1 :: nat updater)) = Some AtQuery
 \<and> timer (StartUpdater (PollingMetadataUpdater False ''poller'' 1 :: nat updater)) = Locked"
  using Start_steps_in_order
          [of "Polling (\<lambda>x. ''-1'') (\<lambda>u. Some (ConfigurationValidationError ''dynamic''))"
              "PollingMetadataUpdater False ''poller'' (- 1) :: nat updater"
              "ConfigurationValidationError ''Polling period -1s cannot be negative''"
              "\<lambda>x. ''-1''" "\<lambda>u. None"]
        Start_steps_in_order
          [of "Polling (\<lambda>x. ''0'') (\<lambda>u. Some (ConfigurationValidationError ''dynamic''))"
              "PollingMetadataUpdater False ''poller'' 0 :: nat updater"
              "ConfigurationValidationError ''dynamic''" "\<lambda>x. ''0''" "\<lambda>u. None"]
        Start_steps_in_order
          [of "Polling (\<lambda>x. ''1'') (\<lambda>u. Some (ConfigurationValidationError ''dynamic''))"
              "PollingMetadataUpdater False ''poller'' 1 :: nat updater"
              "ConfigurationValidationError ''dynamic''" "\<lambda>x. ''1''" "\<lambda>u. None"]
        Start_steps_in_order
          [of "Polling (\<lambda>x. ''1'') (\<lambda>u. None)"
              "PollingMetadataUpdater False ''poller'' 1 :: nat updater"
              "ConfigurationValidationError ''dynamic''" "\<lambda>x. ''1''" "\<lambda>u. None"]
  by (simp add: PollingMetadataUpdater_def ValidateStaticConfiguration_def ShouldStartUpdater_def
        Substitute_period)

text \<open>
  C6. \<open>ShouldStartUpdater\<close> holds exactly when the period is above zero. For a period of
  zero, \<open>Start\<close> returns normally, having only logged \<open>Not starting\<close> with the name;
  an updater without a worker thread stays without one, and the query function is never
  called.
\<close>

theorem Start_zero_period:
  "(ShouldStartUpdater u \<longleftrightarrow> 0 < period u)
 \<and> (period u = 0 \<longrightarrow>
      Start (Polling str dyn) u = Inr (emit (Log INFO [Text ''Not starting '', Text (name u)]) u) \<and>
      \<not> ShouldStartUpdater u \<and>
      (reporter_thread u = None \<longrightarrow>
         reporter_thread (run script (emit (Log INFO [Text ''Not starting '', Text (name u)]) u)) = None \<and>
         query_times (trace (run script (emit (Log INFO [Text ''Not starting '', Text (name u)]) u)))
           = query_times (trace u)))
 \<and> reporter_thread (PollingMetadataUpdater verbose nm period_s :: 'r updater) = None
 \<and> trace (PollingMetadataUpdater verbose nm period_s :: 'r updater) = []"
proof -
  have should: "ShouldStartUpdater u \<longleftrightarrow> 0 < period u"
    by (simp add: ShouldStartUpdater_def)
  have start: "period u = 0 \<longrightarrow>
      Start (Polling str dyn) u = Inr (emit (Log INFO [Text ''Not starting '', Text (name u)]) u)"
    by (simp add: Start_def ValidateStaticConfiguration_def ShouldStartUpdater_def)
  have idle: "reporter_thread u = None \<longrightarrow>
         reporter_thread (run script (emit (Log INFO [Text ''Not starting '', Text (name u)]) u)) = None \<and>
         query_times (trace (run script (emit (Log INFO [Text ''Not starting '', Text (name u)]) u)))
           = query_times (trace u)"
    using run_no_thread [of "emit (Log INFO [Text ''Not starting '', Text (name u)]) u" script]
      run_no_thread_queries [of "emit (Log INFO [Text ''Not starting '', Text (name u)]) u" script]
    by simp
  have new: "reporter_thread (PollingMetadataUpdater verbose nm period_s :: 'r updater) = None
     \<and> trace (PollingMetadataUpdater verbose nm period_s :: 'r updater) = []"
    by (simp add: PollingMetadataUpdater_def)
  from should start idle new show ?thesis by simp
qed

theorem Start_zero_period_witness:
  "period (PollingMetadataUpdater False ''poller'' 0 :: nat updater) = 0
 \<and> Start (Polling (\<lambda>x. ''0'') (\<lambda>u. None)) (PollingMetadataUpdater False ''poller'' 0 :: nat updater)
     = Inr (emit (Log INFO [Text ''Not starting '', Text ''poller'']) (PollingMetadataUpdater False ''poller'' 0))
 \<and> \<not> ShouldStartUpdater (PollingMetadataUpdater False ''poller'' 0 :: nat updater)
 \<and> ShouldStartUpdater (PollingMetadataUpdater False ''poller'' 1 :: nat updater)
 \<and> reporter_thread (PollingMetadataUpdater False ''poller'' 0 :: nat updater) = None
 \<and> reporter_thread (run [QueryReturns 0 [3] 1, TryLockReturns 2, CallNotifyStop]
      (emit (Log INFO [Text ''Not starting '', Text ''poller''])
         (PollingMetadataUpdater False ''poller'' 0 :: nat updater))) = None
 \<and> query_times (trace (run [QueryReturns 0 [3] 1, TryLockReturns 2, CallNotifyStop]
      (emit (Log INFO [Text ''Not starting '', Text ''poller''])
         (PollingMetadataUpdater False ''poller'' 0 :: nat updater)))) = []"
  using Start_zero_period
          [of "PollingMetadataUpdater False ''poller'' 0 :: nat updater" "\<lambda>x. ''0''" "\<lambda>u. None"
              "[QueryReturns 0 [3] 1, TryLockReturns 2, CallNotifyStop]" False "''poller''" 0]
        Start_zero_period
          [of "PollingMetadataUpdater False ''poller'' 1 :: nat updater" "\<lambda>x. ''0''" "\<lambda>u. None"
              "[]" False "''poller''" 0]
  by (simp add: PollingMetadataUpdater_def)

text \<open>
  C7, as amended. \<open>NotifyStop\<close> of the polling updater is \<open>NotifyStopUpdater\<close>; it
  releases the timer and returns in every state of the worker, which it leaves where it
  stands. Once released, the timer stays released as long as the worker has not finished;
  the only step that takes it out of the released state is the worker's \<open>try_lock_until\<close>,
  which locks it again as the worker finishes.
\<close>

theorem NotifyStop_releases_until_observed:
  "NotifyStop (Polling str dyn) u = NotifyStopUpdater u
 \<and> timer (NotifyStopUpdater u) = Unlocked
 \<and> reporter_thread (NotifyStopUpdater u) = reporter_thread u
 \<and> (timer u = Unlocked \<and> reporter_thread (run script u) \<noteq> Some Finished \<longrightarrow>
      timer (run script u) = Unlocked)
 \<and> (timer u = Unlocked \<and> timer (step a u) \<noteq> Unlocked \<longrightarrow>
      reporter_thread (step a u) = Some Finished \<and>
      (\<exists>now start wakeup. a = TryLockReturns now \<and> reporter_thread u = Some (AtWait start wakeup)))"
proof -
  have call: "NotifyStop (Polling str dyn) u = NotifyStopUpdater u"
    by (simp add: NotifyStop_def)
  have level: "timer u = Unlocked \<and> reporter_thread (run script u) \<noteq> Some Finished \<longrightarrow>
      timer (run script u) = Unlocked"
    using run_stays_Unlocked [of u script] by blast
  have "timer u = Unlocked \<and> timer (step a u) \<noteq> Unlocked \<longrightarrow>
      reporter_thread (step a u) = Some Finished \<and>
      (\<exists>now start wakeup. a = TryLockReturns now \<and> reporter_thread u = Some (AtWait start wakeup))"
    by (cases a) (auto simp: wait_attempt_def split: option.splits worker.splits)
  with call level show ?thesis by simp
qed

theorem NotifyStop_releases_until_observed_witness:
  "NotifyStop (Polling (\<lambda>x. ''10'') (\<lambda>u. None))
      (StartUpdater (PollingMetadataUpdater False ''poller'' 10 :: nat updater))
     = NotifyStopUpdater (StartUpdater (PollingMetadataUpdater False ''poller'' 10))
 \<and> timer (NotifyStopUpdater (StartUpdater (PollingMetadataUpdater False ''poller'' 10 :: nat updater))) = Unlocked
 \<and> reporter_thread (run [QueryReturns 0 [4] 1]
      (NotifyStopUpdater (StartUpdater (PollingMetadataUpdater False ''poller'' 10 :: nat updater))))
     = Some (AtWait 1 10000000001)
 \<and> timer (run [QueryReturns 0 [4] 1]
      (NotifyStopUpdater (StartUpdater (PollingMetadataUpdater False ''poller'' 10 :: nat updater)))) = Unlocked
 \<and> timer (step (TryLockReturns 2) (run [QueryReturns 0 [4] 1]
      (NotifyStopUpdater (StartUpdater (PollingMetadataUpdater False ''poller'' 10 :: nat updater))))) = Locked
 \<and> reporter_thread (step (TryLockReturns 2) (run [QueryReturns 0 [4] 1]
      (NotifyStopUpdater (StartUpdater (PollingMetadataUpdater False ''poller'' 10 :: nat updater)))))
     = Some Finished"
  using NotifyStop_releases_until_observed
          [of "\<lambda>x. ''10''" "\<lambda>u. None"
              "StartUpdater (PollingMetadataUpdater False ''poller'' 10 :: nat updater)"
              "[]" "TryLockReturns 2"]
        NotifyStop_releases_until_observed
          [of "\<lambda>x. ''10''" "\<lambda>u. None"
              "NotifyStopUpdater (StartUpdater (PollingMetadataUpdater False ''poller'' 10 :: nat updater))"
              "[QueryReturns 0 [4] 1]" "TryLockReturns 2"]
        NotifyStop_releases_until_observed
          [of "\<lambda>x. ''10''" "\<lambda>u. None"
              "run [QueryReturns 0 [4] 1]
                 (NotifyStopUpdater (StartUpdater (PollingMetadataUpdater False ''poller'' 10 :: nat updater)))"
              "[]" "TryLockReturns 2"]
  by (simp add: PollingMetadataUpdater_def plus_period_def)

text \<open>
  The claim as first stated, that a released timer stays released in every later state,
  fails: after a round and a call of \<open>NotifyStop\<close> the timer is released, and the
  worker's next \<open>try_lock_until\<close> locks it again.
\<close>

theorem released_stays_released_counterexample:
  "timer (NotifyStopUpdater (step (QueryReturns 0 [] 1)
      (StartUpdater (PollingMetadataUpdater False ''poller'' 10 :: nat updater)))) = Unlocked
 \<and> timer (step (TryLockReturns 2) (NotifyStopUpdater (step (QueryReturns 0 [] 1)
      (StartUpdater (PollingMetadataUpdater False ''poller'' 10 :: nat updater))))) = Locked"
  by (simp add: PollingMetadataUpdater_def plus_period_def)




text \<open>
  C9. When the worker's \<open>try_lock_until\<close> finds the timer released, the worker finishes
  and the timer is locked again. Every step by which the worker finishes starts with the
  timer released and ends with it locked, and it stays locked as long as \<open>NotifyStop\<close>
  is not called again.
\<close>

theorem try_lock_reacquires_timer:
  "(reporter_thread u = Some (AtWait start wakeup) \<and> timer u = Unlocked \<longrightarrow>
      reporter_thread (step (TryLockReturns now) u) = Some Finished \<and>
      timer (step (TryLockReturns now) u) = Locked)
 \<and> (reporter_thread u \<noteq> Some Finished \<and> reporter_thread (step a u) = Some Finished \<longrightarrow>
      timer u = Unlocked \<and> timer (step a u) = Locked \<and>
      (CallNotifyStop \<notin> set script \<longrightarrow> timer (run script (step a u)) = Locked))"
proof -
  have one: "reporter_thread u = Some (AtWait start wakeup) \<and> timer u = Unlocked \<longrightarrow>
      reporter_thread (step (TryLockReturns now) u) = Some Finished \<and>
      timer (step (TryLockReturns now) u) = Locked"
    by simp
  have "reporter_thread u \<noteq> Some Finished \<and> reporter_thread (step a u) = Some Finished \<longrightarrow>
      timer u = Unlocked \<and> timer (step a u) = Locked \<and>
      (CallNotifyStop \<notin> set script \<longrightarrow> timer (run script (step a u)) = Locked)"
    using step_finishes [of u a] run_timer_Locked [of "step a u" script] by blast
  with one show ?thesis by blast
qed

theorem try_lock_reacquires_timer_witness:
  "reporter_thread (NotifyStopUpdater (step (QueryReturns 0 [] 1)
      (StartUpdater (PollingMetadataUpdater False ''poller'' 10 :: nat updater)))) = Some (AtWait 1 10000000001)
 \<and> timer (NotifyStopUpdater (step (QueryReturns 0 [] 1)
      (StartUpdater (PollingMetadataUpdater False ''poller'' 10 :: nat updater)))) = Unlocked
 \<and> reporter_thread (step (TryLockReturns 2) (NotifyStopUpdater (step (QueryReturns 0 [] 1)
      (StartUpdater (PollingMetadataUpdater False ''poller'' 10 :: nat updater))))) = Some Finished
 \<and> timer (step (TryLockReturns 2) (NotifyStopUpdater (step (QueryReturns 0 [] 1)
      (StartUpdater (PollingMetadataUpdater False ''poller'' 10 :: nat updater))))) = Locked
 \<and> CallNotifyStop \<notin> set [TryLockReturns 3, QueryReturns 4 [5::nat] 6]
 \<and> timer (run [TryLockReturns 3, QueryReturns 4 [5] 6] (step (TryLockReturns 2)
      (NotifyStopUpdater (step (QueryReturns 0 [] 1)
        (StartUpdater (PollingMetadataUpdater False ''poller'' 10 :: nat updater)))))) = Locked"
  using try_lock_reacquires_timer
          [of "NotifyStopUpdater (step (QueryReturns 0 [] 1)
                 (StartUpdater (PollingMetadataUpdater False ''poller'' 10 :: nat updater)))"
              1 11 2 "TryLockReturns 2" "[TryLockReturns 3, QueryReturns 4 [5] 6]"]
  by (simp add: PollingMetadataUpdater_def plus_period_def)



end
